theory Spec2Isabelle
  imports Main "HOL-Library.AList"
begin

section \<open>Hasami Shogi: the data model of \<open>HasamiShogiGame\<close>\<close>

text \<open>
  The class \<open>HasamiShogiGame\<close> keeps three fields that the rules read and write:
  \<open>_board_status\<close>, a list of nine rows of nine cells, each cell one of the strings
  \<open>'NONE'\<close>, \<open>'BLACK'\<close>, \<open>'RED'\<close>; \<open>_current_player\<close>; and the dictionary
  \<open>_captured_pieces\<close>. The field \<open>_board\<close> (the names of the squares) is written
  once by the constructor and never read, so it is left out. The three cell strings
  are a datatype; the dictionary is an association list in insertion order.
  Calls to \<open>print\<close> are not modelled, except that the message printed by
  \<open>is_valid_move\<close> before it returns \<open>False\<close> is kept as the verdict's tag.

  Strings are lists of 8-bit characters. In that range the only characters that
  Python's \<open>int\<close> accepts as a one-character argument are \<open>'0'\<close> .. \<open>'9'\<close>.
\<close>

datatype occupant = NONE | BLACK | RED

datatype py_error = IndexError | ValueError | KeyError | UnboundLocalError | LoopsForever

datatype game_state = UNFINISHED | RED_WON | BLACK_WON

record game =
  board_status :: "occupant list list"
  current_player :: occupant
  captured_pieces :: "(occupant \<times> int) list"

text \<open>\<open>__init__\<close>: nine rows of \<open>'NONE'\<close>, then row 0 all black and row -1 (the last) all red.\<close>

definition init_game :: game where
  "init_game =
     \<lparr> board_status = (replicate 9 (replicate 9 NONE))[0 := replicate 9 BLACK, 8 := replicate 9 RED],
       current_player = BLACK,
       captured_pieces = [(BLACK, 0), (RED, 0)] \<rparr>"

subsection \<open>Python primitives\<close>

text \<open>\<open>ord\<close> of a character, and \<open>chr\<close>: a \<open>ValueError\<close> below zero and from
  \<open>0x110000\<close> on. Code points from 256 on are characters the 8-bit model does not have;
  the engine never asks for one, and the model reports them as a \<open>ValueError\<close> too.\<close>

definition ord :: "char \<Rightarrow> int" where
  "ord c = of_char c"

definition chr :: "int \<Rightarrow> py_error + char" where
  "chr n = (if 0 \<le> n \<and> n < 256 then Inr (char_of n) else Inl ValueError)"

text \<open>\<open>int(c)\<close> for a one-character string \<open>c\<close>: the digit's value, or a \<open>ValueError\<close>.\<close>

definition py_int :: "char \<Rightarrow> py_error + int" where
  "py_int c = (if 48 \<le> ord c \<and> ord c \<le> 57 then Inr (ord c - 48) else Inl ValueError)"

text \<open>\<open>str(n)\<close> for an integer: its decimal digits, with a minus sign below zero.\<close>

fun digits :: "nat \<Rightarrow> string" where
  "digits n = (if n < 10 then [char_of (48 + n)] else digits (n div 10) @ [char_of (48 + n mod 10)])"

declare digits.simps [simp del]

definition str :: "int \<Rightarrow> string" where
  "str n = (if n < 0 then CHR ''-'' # digits (nat (- n)) else digits (nat n))"

text \<open>\<open>xs[i]\<close>: a negative index counts from the end; outside the list it is an
  \<open>IndexError\<close>. \<open>py_index\<close> gives the position in the list that \<open>i\<close> denotes.\<close>

definition py_index :: "nat \<Rightarrow> int \<Rightarrow> py_error + nat" where
  "py_index n i =
     (let j = (if i < 0 then int n + i else i)
      in if 0 \<le> j \<and> j < int n then Inr (nat j) else Inl IndexError)"

text \<open>\<open>range(start, stop, step)\<close> as the list it runs through (empty for step 0, which
  the engine never passes).\<close>

definition py_range :: "int \<Rightarrow> int \<Rightarrow> int \<Rightarrow> int list" where
  "py_range start stop step =
     (if step > 0 then map (\<lambda>k. start + int k * step) [0 ..< nat ((stop - start + step - 1) div step)]
      else if step < 0 then map (\<lambda>k. start + int k * step) [0 ..< nat ((start - stop - step - 1) div (- step))]
      else [])"

subsection \<open>Positions and cells\<close>

text \<open>\<open>position_to_coords\<close>: \<open>position[0]\<close> and \<open>position[1]\<close> raise an \<open>IndexError\<close> on
  a string that is too short, \<open>int\<close> a \<open>ValueError\<close> on a character that is no digit.\<close>

definition position_to_coords :: "string \<Rightarrow> py_error + (int \<times> int)" where
  "position_to_coords position =
     (case position of
        [] \<Rightarrow> Inl IndexError
      | c0 # rest \<Rightarrow>
          (case rest of
             [] \<Rightarrow> Inl IndexError
           | c1 # _ \<Rightarrow>
               (case py_int c1 of
                  Inl e \<Rightarrow> Inl e
                | Inr d \<Rightarrow> Inr (ord c0 - ord CHR ''a'', d - 1))))"

definition coords_to_position :: "int \<Rightarrow> int \<Rightarrow> py_error + string" where
  "coords_to_position x_coordinate y_coordinate =
     (case chr (ord CHR ''a'' + x_coordinate) of
        Inl e \<Rightarrow> Inl e
      | Inr c \<Rightarrow> Inr (c # str (y_coordinate + 1)))"

definition get_square_occupant :: "game \<Rightarrow> string \<Rightarrow> py_error + occupant" where
  "get_square_occupant g position =
     (case position_to_coords position of
        Inl e \<Rightarrow> Inl e
      | Inr (x_coordinate, y_coordinate) \<Rightarrow>
          (case py_index (length (board_status g)) x_coordinate of
             Inl e \<Rightarrow> Inl e
           | Inr i \<Rightarrow>
               (case py_index (length (board_status g ! i)) y_coordinate of
                  Inl e \<Rightarrow> Inl e
                | Inr j \<Rightarrow> Inr (board_status g ! i ! j))))"

text \<open>\<open>_set_square_status\<close>: the one write to the board. The rows are separate lists
  (the constructor builds each one anew), so a write changes one cell of one row.\<close>

definition set_square_status :: "game \<Rightarrow> string \<Rightarrow> occupant \<Rightarrow> py_error + game" where
  "set_square_status g position piece =
     (case position_to_coords position of
        Inl e \<Rightarrow> Inl e
      | Inr (x_coordinate, y_coordinate) \<Rightarrow>
          (case py_index (length (board_status g)) x_coordinate of
             Inl e \<Rightarrow> Inl e
           | Inr i \<Rightarrow>
               (case py_index (length (board_status g ! i)) y_coordinate of
                  Inl e \<Rightarrow> Inl e
                | Inr j \<Rightarrow>
                    Inr (g\<lparr>board_status := (board_status g)[i := (board_status g ! i)[j := piece]]\<rparr>))))"

definition get_active_player :: "game \<Rightarrow> occupant" where
  "get_active_player g = current_player g"

definition get_num_captured_pieces :: "game \<Rightarrow> occupant \<Rightarrow> py_error + int" where
  "get_num_captured_pieces g color =
     (case map_of (captured_pieces g) color of None \<Rightarrow> Inl KeyError | Some n \<Rightarrow> Inr n)"

text \<open>A position string as the engine's interface writes it: a letter \<open>a\<close> .. \<open>i\<close>
  and a digit \<open>1\<close> .. \<open>9\<close>.\<close>

definition valid_position :: "string \<Rightarrow> bool" where
  "valid_position s \<longleftrightarrow>
     length s = 2 \<and> s ! 0 \<in> set ''abcdefghi'' \<and> s ! 1 \<in> set ''123456789''"

subsection \<open>\<open>get_game_state\<close>\<close>

text \<open>The two nested loops over the rows and the cells of a row, with the two counters
  \<open>(black_pieces, red_pieces)\<close>.\<close>

definition count_cell :: "occupant \<Rightarrow> int \<times> int \<Rightarrow> int \<times> int" where
  "count_cell c acc =
     (case acc of (black_pieces, red_pieces) \<Rightarrow>
        if c = RED then (black_pieces, red_pieces + 1)
        else if c = BLACK then (black_pieces + 1, red_pieces)
        else (black_pieces, red_pieces))"

definition count_pieces :: "occupant list list \<Rightarrow> int \<times> int" where
  "count_pieces board = fold (\<lambda>row acc. fold count_cell row acc) board (0, 0)"

definition get_game_state :: "game \<Rightarrow> game_state" where
  "get_game_state g =
     (case count_pieces (board_status g) of (black_pieces, red_pieces) \<Rightarrow>
        if black_pieces > 1 \<and> red_pieces > 1 then UNFINISHED
        else if black_pieces > 1 then BLACK_WON
        else RED_WON)"

subsection \<open>\<open>is_valid_move\<close>\<close>

text \<open>The messages \<open>is_valid_move\<close> prints, one constructor for each \<open>print\<close> in
  the order of the source; \<open>Reject m\<close> is "print \<open>m\<close> and return \<open>False\<close>",
  \<open>Accept\<close> is "return \<open>True\<close>".\<close>

datatype message =
    NotValidMovedTo
  | NotValidMovedFrom
  | InvalidMoveToRow
  | InvalidMoveFromRow
  | NoDiagonalMovement
  | InvalidColumnTo
  | InvalidColumnFrom
  | PieceInDestination
  | NoPieceInSource
  | NotThePlayersPiece
  | OccupiedAlready string

datatype verdict = Accept | Reject message

text \<open>The loop that checks the squares between source and destination: \<open>cells\<close> are
  the coordinates it visits, in order.\<close>

fun path_clear :: "game \<Rightarrow> (int \<times> int) list \<Rightarrow> py_error + verdict" where
  "path_clear g [] = Inr Accept"
| "path_clear g ((x, y) # cells) =
     (case coords_to_position x y of
        Inl e \<Rightarrow> Inl e
      | Inr position \<Rightarrow>
          (case get_square_occupant g position of
             Inl e \<Rightarrow> Inl e
           | Inr occ \<Rightarrow>
               if occ \<noteq> NONE then Inr (Reject (OccupiedAlready position))
               else path_clear g cells))"

definition is_valid_move :: "game \<Rightarrow> string \<Rightarrow> string \<Rightarrow> py_error + verdict" where
  "is_valid_move g string_moved_from string_moved_to =
     (let characters = ''abcdefghi''; current = get_active_player g in
      if length string_moved_to \<noteq> 2 then Inr (Reject NotValidMovedTo)
      else if length string_moved_from \<noteq> 2 then Inr (Reject NotValidMovedFrom)
      else if string_moved_to ! 0 \<notin> set characters then Inr (Reject InvalidMoveToRow)
      else if string_moved_from ! 0 \<notin> set characters then Inr (Reject InvalidMoveFromRow)
      else if string_moved_to ! 1 \<noteq> string_moved_from ! 1 \<and> string_moved_to ! 0 \<noteq> string_moved_from ! 0
        then Inr (Reject NoDiagonalMovement)
      else
        (case py_int (string_moved_to ! 1) of
           Inl e \<Rightarrow> Inl e
         | Inr col_to \<Rightarrow>
        if col_to < 1 \<or> col_to > 9 then Inr (Reject InvalidColumnTo)
        else
        (case py_int (string_moved_from ! 1) of
           Inl e \<Rightarrow> Inl e
         | Inr col_from \<Rightarrow>
        if col_from < 1 \<or> col_from > 9 then Inr (Reject InvalidColumnFrom)
        else
        (case get_square_occupant g string_moved_from of
           Inl e \<Rightarrow> Inl e
         | Inr piece \<Rightarrow>
        (case get_square_occupant g string_moved_to of
           Inl e \<Rightarrow> Inl e
         | Inr destination \<Rightarrow>
        if destination \<noteq> NONE then Inr (Reject PieceInDestination)
        else if piece = NONE then Inr (Reject NoPieceInSource)
        else if piece \<noteq> current then Inr (Reject NotThePlayersPiece)
        else
        (case position_to_coords string_moved_from of
           Inl e \<Rightarrow> Inl e
         | Inr (x_from, y_from) \<Rightarrow>
        (case position_to_coords string_moved_to of
           Inl e \<Rightarrow> Inl e
         | Inr (x_to, y_to) \<Rightarrow>
        if x_to = x_from then
          (let step = (if y_from > y_to then - 1 else 1);
               start = (if y_from > y_to then y_from - 1 else y_from + 1)
           in path_clear g (map (\<lambda>i. (x_to, i)) (py_range start y_to step)))
        else if y_to = y_from then
          (let step = (if x_from > x_to then - 1 else 1);
               start = (if x_from > x_to then x_from - 1 else x_from + 1)
           in path_clear g (map (\<lambda>i. (i, y_to)) (py_range start x_to step)))
        else Inr Accept)))))))"

subsection \<open>\<open>try_capture\<close>\<close>

text \<open>\<open>self._captured_pieces[enemy] += n\<close>: a \<open>KeyError\<close> for a key the dictionary
  does not have.\<close>

definition add_captured :: "game \<Rightarrow> occupant \<Rightarrow> int \<Rightarrow> (py_error \<times> game) + game" where
  "add_captured g enemy n =
     (case map_of (captured_pieces g) enemy of
        None \<Rightarrow> Inl (KeyError, g)
      | Some c \<Rightarrow> Inr (g\<lparr>captured_pieces := AList.update enemy (c + n) (captured_pieces g)\<rparr>))"

datatype direction = rowminus | rowplus | colminus | colplus

text \<open>The four \<open>while\<close> loops of \<open>try_capture\<close> differ in their condition and in the
  coordinate they step; \<open>loop_cond\<close> and \<open>advance\<close> give both for each direction.\<close>

definition loop_cond :: "direction \<Rightarrow> int \<Rightarrow> int \<Rightarrow> bool" where
  "loop_cond d x_coordinate y_coordinate =
     (case d of
        rowminus \<Rightarrow> y_coordinate \<ge> 0
      | rowplus \<Rightarrow> y_coordinate < 9
      | colminus \<Rightarrow> x_coordinate \<ge> 0
      | colplus \<Rightarrow> x_coordinate < 9)"

definition advance :: "direction \<Rightarrow> int \<times> int \<Rightarrow> int \<times> int" where
  "advance d xy =
     (case xy of (x_coordinate, y_coordinate) \<Rightarrow>
        (case d of
           rowminus \<Rightarrow> (x_coordinate, y_coordinate - 1)
         | rowplus \<Rightarrow> (x_coordinate, y_coordinate + 1)
         | colminus \<Rightarrow> (x_coordinate - 1, y_coordinate)
         | colplus \<Rightarrow> (x_coordinate + 1, y_coordinate)))"

text \<open>How a \<open>while\<close> loop of \<open>try_capture\<close> ends: by \<open>return\<close> on an empty square,
  by \<open>break\<close> on a piece of the mover's colour (\<open>do_capture = True\<close>), or because its
  condition fails at the edge of the board; the last two with \<open>captured_piece\<close>.
  A square that is neither empty, nor \<open>enemy\<close>, nor \<open>color\<close> changes no variable of
  the loop, which then never ends: \<open>LoopsForever\<close>.\<close>

datatype loop_exit = Returned | Broke int | Exhausted int

function scan :: "game \<Rightarrow> occupant \<Rightarrow> occupant \<Rightarrow> direction \<Rightarrow> int \<times> int \<Rightarrow> int \<Rightarrow> py_error + loop_exit" where
  "scan g color enemy d xy captured_piece =
     (if loop_cond d (fst xy) (snd xy) then
        (case coords_to_position (fst xy) (snd xy) of
           Inl e \<Rightarrow> Inl e
         | Inr position \<Rightarrow>
             (case get_square_occupant g position of
                Inl e \<Rightarrow> Inl e
              | Inr piece \<Rightarrow>
                  if piece = NONE then Inr Returned
                  else if piece = enemy then scan g color enemy d (advance d xy) (captured_piece + 1)
                  else if piece = color then Inr (Broke captured_piece)
                  else Inl LoopsForever))
      else Inr (Exhausted captured_piece))"
  by pat_completeness auto
termination
  by (relation "measure (\<lambda>(g, color, enemy, d, xy, captured_piece).
        case d of
          rowminus \<Rightarrow> nat (snd xy + 1)
        | rowplus \<Rightarrow> nat (9 - snd xy)
        | colminus \<Rightarrow> nat (fst xy + 1)
        | colplus \<Rightarrow> nat (9 - fst xy))")
     (auto simp: loop_cond_def advance_def split: direction.splits prod.splits)

declare scan.simps [simp del]

text \<open>The \<open>for\<close> loop that empties the captured squares.\<close>

fun clear_cells :: "game \<Rightarrow> (int \<times> int) list \<Rightarrow> (py_error \<times> game) + game" where
  "clear_cells g [] = Inr g"
| "clear_cells g ((x, y) # cells) =
     (case coords_to_position x y of
        Inl e \<Rightarrow> Inl (e, g)
      | Inr position \<Rightarrow>
          (case set_square_status g position NONE of
             Inl e \<Rightarrow> Inl (e, g)
           | Inr g' \<Rightarrow> clear_cells g' cells))"

text \<open>\<open>try_capture\<close>. In the block of \<open>'rowplus'\<close> the start of the scan is saved in
  \<open>save_x\<close> and the \<open>for\<close> loop then reads \<open>save_y\<close>, a local variable that block never
  assigns: reading it raises \<open>UnboundLocalError\<close>. The last statement,
  \<open>self._captured_pieces[enemy] += captured_piece\<close>, is reached after a \<open>break\<close> and
  also when the loop's condition fails.\<close>

definition try_capture ::
  "game \<Rightarrow> occupant \<Rightarrow> occupant \<Rightarrow> int \<Rightarrow> int \<Rightarrow> direction \<Rightarrow> (py_error \<times> game) + game" where
  "try_capture g color enemy x_coordinate y_coordinate d =
     (case scan g color enemy d (x_coordinate, y_coordinate) 0 of
        Inl e \<Rightarrow> Inl (e, g)
      | Inr Returned \<Rightarrow> Inr g
      | Inr (Exhausted captured_piece) \<Rightarrow> add_captured g enemy captured_piece
      | Inr (Broke captured_piece) \<Rightarrow>
          (case d of
             rowminus \<Rightarrow>
               (let save_y = y_coordinate in
                case clear_cells g (map (\<lambda>index. (x_coordinate, index))
                       (py_range save_y (save_y - captured_piece) (- 1))) of
                  Inl r \<Rightarrow> Inl r
                | Inr g' \<Rightarrow> add_captured g' enemy captured_piece)
           | rowplus \<Rightarrow> Inl (UnboundLocalError, g)
           | colminus \<Rightarrow>
               (let save_x = x_coordinate in
                case clear_cells g (map (\<lambda>index. (index, y_coordinate))
                       (py_range save_x (save_x - captured_piece) (- 1))) of
                  Inl r \<Rightarrow> Inl r
                | Inr g' \<Rightarrow> add_captured g' enemy captured_piece)
           | colplus \<Rightarrow>
               (let save_x = x_coordinate in
                case clear_cells g (map (\<lambda>index. (index, y_coordinate))
                       (py_range save_x (save_x + captured_piece) 1)) of
                  Inl r \<Rightarrow> Inl r
                | Inr g' \<Rightarrow> add_captured g' enemy captured_piece)))"

subsection \<open>\<open>piece_capture\<close>\<close>

text \<open>The \<open>if\<close>/\<open>elif\<close> chain of the corner cases, in the order of the source: the
  destination of the move, the square that must hold the mover's colour, and the
  corner that must hold the enemy's. \<open>and\<close> evaluates its operands from the left and
  stops at the first that is false.\<close>

definition corner_table :: "(string \<times> string \<times> string) list" where
  "corner_table =
     [(''a2'', ''b1'', ''a1''), (''a8'', ''b9'', ''a9''), (''i2'', ''h1'', ''i1''), (''i8'', ''h9'', ''i9''),
      (''b1'', ''a2'', ''a1''), (''b9'', ''a8'', ''a9''), (''h1'', ''i2'', ''i1''), (''h9'', ''i8'', ''i9'')]"

definition corner_test ::
  "game \<Rightarrow> string \<Rightarrow> occupant \<Rightarrow> occupant \<Rightarrow> string \<times> string \<times> string \<Rightarrow> py_error + bool" where
  "corner_test g string_moved_to color enemy entry =
     (case entry of (dest, neighbour, corner) \<Rightarrow>
        if string_moved_to \<noteq> dest then Inr False
        else
          (case get_square_occupant g neighbour of
             Inl e \<Rightarrow> Inl e
           | Inr n \<Rightarrow>
               if n \<noteq> color then Inr False
               else
                 (case get_square_occupant g corner of
                    Inl e \<Rightarrow> Inl e
                  | Inr c \<Rightarrow> Inr (c = enemy))))"

definition corner_take :: "game \<Rightarrow> occupant \<Rightarrow> string \<Rightarrow> (py_error \<times> game) + game" where
  "corner_take g enemy corner =
     (case set_square_status g corner NONE of
        Inl e \<Rightarrow> Inl (e, g)
      | Inr g' \<Rightarrow> add_captured g' enemy 1)"

fun corner_chain ::
  "game \<Rightarrow> string \<Rightarrow> occupant \<Rightarrow> occupant \<Rightarrow> (string \<times> string \<times> string) list \<Rightarrow> (py_error \<times> game) + game" where
  "corner_chain g string_moved_to color enemy [] = Inr g"
| "corner_chain g string_moved_to color enemy (entry # entries) =
     (case corner_test g string_moved_to color enemy entry of
        Inl e \<Rightarrow> Inl (e, g)
      | Inr True \<Rightarrow> corner_take g enemy (snd (snd entry))
      | Inr False \<Rightarrow> corner_chain g string_moved_to color enemy entries)"

text \<open>The four scans that follow the corner cases.\<close>

definition directional_scans ::
  "game \<Rightarrow> string \<Rightarrow> occupant \<Rightarrow> occupant \<Rightarrow> (py_error \<times> game) + game" where
  "directional_scans g string_moved_to color enemy =
     (case position_to_coords string_moved_to of
        Inl e \<Rightarrow> Inl (e, g)
      | Inr (x_coordinate, y_coordinate) \<Rightarrow>
     (case (if y_coordinate > 1 then try_capture g color enemy x_coordinate (y_coordinate - 1) rowminus
            else Inr g) of
        Inl r \<Rightarrow> Inl r
      | Inr g1 \<Rightarrow>
     (case (if y_coordinate < 8 then try_capture g1 color enemy x_coordinate (y_coordinate + 1) rowplus
            else Inr g1) of
        Inl r \<Rightarrow> Inl r
      | Inr g2 \<Rightarrow>
     (case (if x_coordinate > 1 then try_capture g2 color enemy (x_coordinate - 1) y_coordinate colminus
            else Inr g2) of
        Inl r \<Rightarrow> Inl r
      | Inr g3 \<Rightarrow>
        (if x_coordinate < 8 then try_capture g3 color enemy (x_coordinate + 1) y_coordinate colplus
         else Inr g3)))))"

definition piece_capture :: "game \<Rightarrow> string \<Rightarrow> occupant \<Rightarrow> (py_error \<times> game) + game" where
  "piece_capture g string_moved_to color =
     (let enemy = (if color = BLACK then RED else BLACK) in
      case corner_chain g string_moved_to color enemy corner_table of
        Inl r \<Rightarrow> Inl r
      | Inr g' \<Rightarrow> directional_scans g' string_moved_to color enemy)"

subsection \<open>\<open>make_move\<close>\<close>

text \<open>The result of \<open>make_move\<close>: the value it returns with the game after the call, or
  the exception that leaves it with the game as it is at that moment.\<close>

definition make_move :: "game \<Rightarrow> string \<Rightarrow> string \<Rightarrow> (py_error \<times> game) + (bool \<times> game)" where
  "make_move g string_moved_from string_moved_to =
     (if get_game_state g \<noteq> UNFINISHED then Inr (False, g)
      else
        (case is_valid_move g string_moved_from string_moved_to of
           Inl e \<Rightarrow> Inl (e, g)
         | Inr (Reject m) \<Rightarrow> Inr (False, g)
         | Inr Accept \<Rightarrow>
        (case get_square_occupant g string_moved_from of
           Inl e \<Rightarrow> Inl (e, g)
         | Inr piece \<Rightarrow>
        (case set_square_status g string_moved_to piece of
           Inl e \<Rightarrow> Inl (e, g)
         | Inr g1 \<Rightarrow>
        (case set_square_status g1 string_moved_from NONE of
           Inl e \<Rightarrow> Inl (e, g1)
         | Inr g2 \<Rightarrow>
        (case piece_capture g2 string_moved_to piece of
           Inl r \<Rightarrow> Inl r
         | Inr g3 \<Rightarrow>
             Inr (True, g3\<lparr>current_player := (if current_player g3 = RED then BLACK else RED)\<rparr>)))))))"

text \<open>The game a call leaves behind, however it ends.\<close>

definition game_after :: "(py_error \<times> game) + (bool \<times> game) \<Rightarrow> game" where
  "game_after r = (case r of Inl (e, g) \<Rightarrow> g | Inr (b, g) \<Rightarrow> g)"

section \<open>Notions the properties are stated with\<close>

text \<open>The number of pieces of a colour on the board, counted cell by cell.\<close>

definition pieces_on_board :: "game \<Rightarrow> occupant \<Rightarrow> nat" where
  "pieces_on_board g color = sum_list (map (\<lambda>row. count_list row color) (board_status g))"

text \<open>The games the engine works on: a board of nine rows of nine cells (the
  constructor builds it so and \<open>_set_square_status\<close> keeps the lengths), a player to
  move, and a count for each colour.\<close>

definition wf_game :: "game \<Rightarrow> bool" where
  "wf_game g \<longleftrightarrow>
     length (board_status g) = 9 \<and> list_all (\<lambda>row. length row = 9) (board_status g)
     \<and> (current_player g = BLACK \<or> current_player g = RED)
     \<and> map_of (captured_pieces g) BLACK \<noteq> None \<and> map_of (captured_pieces g) RED \<noteq> None"

text \<open>The opening of a game in which Black has moved \<open>a3\<close> to \<open>e3\<close> and Red has
  answered \<open>i2\<close> to \<open>e2\<close>.\<close>

definition flank_opening :: game where
  "flank_opening =
     game_after (make_move (game_after (make_move init_game ''a3'' ''e3'')) ''i2'' ''e2'')"

text \<open>A late position, Black to move: Black on \<open>a5\<close> and \<open>e3\<close>, Red on \<open>e4\<close> and
  \<open>i9\<close>, seven pieces of each colour captured.\<close>

definition late_game :: game where
  "late_game =
     \<lparr> board_status =
         (replicate 9 (replicate 9 NONE))
           [0 := (replicate 9 NONE)[4 := BLACK],
            4 := (replicate 9 NONE)[2 := BLACK, 3 := RED],
            8 := (replicate 9 NONE)[8 := RED]],
       current_player = BLACK,
       captured_pieces = [(BLACK, 7), (RED, 7)] \<rparr>"

text \<open>\<open>late_game\<close> after Black's \<open>a5-e5\<close>, which captures the red piece on \<open>e4\<close>.\<close>

definition won_game :: game where
  "won_game = game_after (make_move late_game ''a5'' ''e5'')"

text \<open>The colour that \<open>piece_capture\<close> takes as the enemy of \<open>color\<close>.\<close>

definition opponent :: "occupant \<Rightarrow> occupant" where
  "opponent color = (if color = BLACK then RED else BLACK)"

text \<open>Cells by their coordinates: the coordinates of the board, the cell at a pair of
  coordinates, and the game with one cell written.\<close>

definition on_board :: "int \<Rightarrow> int \<Rightarrow> bool" where
  "on_board x y \<longleftrightarrow> 0 \<le> x \<and> x \<le> 8 \<and> 0 \<le> y \<and> y \<le> 8"

definition cell :: "game \<Rightarrow> int \<Rightarrow> int \<Rightarrow> occupant" where
  "cell g x y = board_status g ! nat x ! nat y"

definition put :: "game \<Rightarrow> int \<Rightarrow> int \<Rightarrow> occupant \<Rightarrow> game" where
  "put g x y piece =
     g\<lparr>board_status := (board_status g)[nat x := (board_status g ! nat x)[nat y := piece]]\<rparr>"

definition board_ok :: "occupant list list \<Rightarrow> bool" where
  "board_ok board \<longleftrightarrow> length board = 9 \<and> list_all (\<lambda>row. length row = 9) board"

text \<open>A board and a later one that differs from it only in cells that held a piece of
  \<open>enemy\<close> and are now empty.\<close>

definition shrinks :: "occupant \<Rightarrow> occupant list list \<Rightarrow> occupant list list \<Rightarrow> bool" where
  "shrinks enemy board board' \<longleftrightarrow>
     list_all2 (list_all2 (\<lambda>old new. new = old \<or> (new = NONE \<and> old = enemy))) board board'"

text \<open>The coordinates a scan in direction \<open>d\<close> can be at: on the board, or one step
  beyond the edge it runs towards.\<close>

definition track :: "direction \<Rightarrow> int \<times> int \<Rightarrow> bool" where
  "track d xy =
     (case xy of (x, y) \<Rightarrow>
        (case d of
           rowminus \<Rightarrow> 0 \<le> x \<and> x \<le> 8 \<and> - 1 \<le> y \<and> y \<le> 8
         | rowplus \<Rightarrow> 0 \<le> x \<and> x \<le> 8 \<and> 0 \<le> y \<and> y \<le> 9
         | colminus \<Rightarrow> - 1 \<le> x \<and> x \<le> 8 \<and> 0 \<le> y \<and> y \<le> 8
         | colplus \<Rightarrow> 0 \<le> x \<and> x \<le> 9 \<and> 0 \<le> y \<and> y \<le> 8))"

text \<open>The first \<open>n\<close> cells of a scan that starts at \<open>xy\<close>.\<close>

fun run_cells :: "direction \<Rightarrow> int \<times> int \<Rightarrow> nat \<Rightarrow> (int \<times> int) list" where
  "run_cells d xy 0 = []"
| "run_cells d xy (Suc n) = xy # run_cells d (advance d xy) n"

text \<open>What capture resolution may do to a game: empty cells that held a piece of
  \<open>enemy\<close>, and raise the captured count of \<open>enemy\<close>; the player to move and the other
  counts stay.\<close>

definition capture_step :: "occupant \<Rightarrow> game \<Rightarrow> game \<Rightarrow> bool" where
  "capture_step enemy g g' \<longleftrightarrow>
     shrinks enemy (board_status g) (board_status g')
     \<and> current_player g' = current_player g
     \<and> (\<forall>k. k \<noteq> enemy \<longrightarrow> map_of (captured_pieces g') k = map_of (captured_pieces g) k)
     \<and> (\<exists>c c'. map_of (captured_pieces g) enemy = Some c
           \<and> map_of (captured_pieces g') enemy = Some c' \<and> c \<le> c')"

text \<open>The results of capture resolution on a well-formed game: it returns, or it raises
  \<open>UnboundLocalError\<close>; either way the game it leaves is a \<open>capture_step\<close> away.\<close>

definition capture_result :: "occupant \<Rightarrow> game \<Rightarrow> (py_error \<times> game) + game \<Rightarrow> bool" where
  "capture_result enemy g r \<longleftrightarrow>
     (case r of
        Inr g' \<Rightarrow> capture_step enemy g g'
      | Inl (e, g') \<Rightarrow> e = UnboundLocalError \<and> capture_step enemy g g')"

text \<open>A game on which capture resolution for \<open>enemy\<close> cannot raise an \<open>IndexError\<close> or
  a \<open>KeyError\<close>.\<close>

definition ready :: "occupant \<Rightarrow> game \<Rightarrow> bool" where
  "ready enemy g \<longleftrightarrow> board_ok (board_status g) \<and> map_of (captured_pieces g) enemy \<noteq> None"





section \<open>Positions and coordinates\<close>

lemma str_digit_table:
  "str 1 = ''1''" "str 2 = ''2''" "str 3 = ''3''" "str 4 = ''4''" "str 5 = ''5''"
  "str 6 = ''6''" "str 7 = ''7''" "str 8 = ''8''" "str 9 = ''9''"
  by code_simp+

lemma chr_letter_table:
  "chr 97 = Inr CHR ''a''" "chr 98 = Inr CHR ''b''" "chr 99 = Inr CHR ''c''"
  "chr 100 = Inr CHR ''d''" "chr 101 = Inr CHR ''e''" "chr 102 = Inr CHR ''f''"
  "chr 103 = Inr CHR ''g''" "chr 104 = Inr CHR ''h''" "chr 105 = Inr CHR ''i''"
  by code_simp+

lemma small_int_cases:
  fixes x :: int
  assumes "0 \<le> x" "x \<le> 8"
  shows "x = 0 \<or> x = 1 \<or> x = 2 \<or> x = 3 \<or> x = 4 \<or> x = 5 \<or> x = 6 \<or> x = 7 \<or> x = 8"
  using assms by arith

lemma valid_position_cases:
  assumes "valid_position s"
  obtains c0 c1 where "s = [c0, c1]" "c0 \<in> set ''abcdefghi''" "c1 \<in> set ''123456789''"
proof -
  from assms have len: "length s = 2" by (simp add: valid_position_def)
  then obtain c0 c1 where s: "s = [c0, c1]"
    by (cases s; cases "tl s") auto
  with assms show thesis
    by (intro that [of c0 c1]) (simp_all add: valid_position_def)
qed

lemma position_to_coords_valid:
  assumes "valid_position s"
  shows "\<exists>x y. position_to_coords s = Inr (x, y) \<and> 0 \<le> x \<and> x \<le> 8 \<and> 0 \<le> y \<and> y \<le> 8
           \<and> coords_to_position x y = Inr s"
proof -
  from assms obtain c0 c1 where s: "s = [c0, c1]"
    and c0: "c0 \<in> set ''abcdefghi''" and c1: "c1 \<in> set ''123456789''"
    by (rule valid_position_cases)
  from c1 have d: "py_int c1 = Inr (ord c1 - 48) \<and> 1 \<le> ord c1 - 48 \<and> ord c1 - 48 \<le> 9
      \<and> str (ord c1 - 48 - 1 + 1) = [c1]"
    by (auto simp: py_int_def ord_def str_digit_table)
  from c0 have l: "0 \<le> ord c0 - ord CHR ''a'' \<and> ord c0 - ord CHR ''a'' \<le> 8
      \<and> chr (ord CHR ''a'' + (ord c0 - ord CHR ''a'')) = Inr c0"
    by (auto simp: ord_def chr_letter_table)
  from d l show ?thesis
    by (simp add: s position_to_coords_def coords_to_position_def)
qed

lemma coords_to_position_valid:
  assumes "0 \<le> x" "x \<le> 8" "0 \<le> y" "y \<le> 8"
  shows "\<exists>s. coords_to_position x y = Inr s \<and> valid_position s \<and> position_to_coords s = Inr (x, y)"
proof -
  from small_int_cases [OF assms(1,2)]
  have cx: "\<exists>c. chr (ord CHR ''a'' + x) = Inr c \<and> c \<in> set ''abcdefghi'' \<and> ord c - ord CHR ''a'' = x"
    by (elim disjE) (simp_all add: chr_letter_table ord_def)
  from small_int_cases [OF assms(3,4)]
  have cy: "\<exists>c. str (y + 1) = [c] \<and> c \<in> set ''123456789'' \<and> py_int c = Inr (y + 1)"
    by (elim disjE) (simp_all add: str_digit_table py_int_def ord_def)
  from cx cy show ?thesis
    by (auto simp: coords_to_position_def position_to_coords_def valid_position_def)
qed

text \<open>
  Claim C10. \<open>position_to_coords\<close> followed by \<open>coords_to_position\<close> gives back every
  valid position string (a letter \<open>a\<close> .. \<open>i\<close> followed by a digit \<open>1\<close> .. \<open>9\<close>), and
  \<open>coords_to_position\<close> followed by \<open>position_to_coords\<close> gives back every coordinate
  pair of \<open>{0..8} \<times> {0..8}\<close>; neither call raises.
\<close>

theorem position_coords_round_trip:
  "(valid_position s \<longrightarrow>
      (\<exists>x y. position_to_coords s = Inr (x, y) \<and> coords_to_position x y = Inr s))
   \<and> (0 \<le> x \<and> x \<le> 8 \<and> 0 \<le> y \<and> y \<le> 8 \<longrightarrow>
      (\<exists>p. coords_to_position x y = Inr p \<and> position_to_coords p = Inr (x, y)))"
proof (intro conjI impI)
  assume "valid_position s"
  from position_to_coords_valid [OF this]
  show "\<exists>x y. position_to_coords s = Inr (x, y) \<and> coords_to_position x y = Inr s"
    by blast
next
  assume "0 \<le> x \<and> x \<le> 8 \<and> 0 \<le> y \<and> y \<le> 8"
  then have "\<exists>s. coords_to_position x y = Inr s \<and> valid_position s \<and> position_to_coords s = Inr (x, y)"
    by (intro coords_to_position_valid) simp_all
  then show "\<exists>p. coords_to_position x y = Inr p \<and> position_to_coords p = Inr (x, y)"
    by blast
qed

theorem position_coords_round_trip_witness:
  "valid_position ''e5'' \<and> position_to_coords ''e5'' = Inr (4, 4)
   \<and> coords_to_position 4 4 = Inr ''e5''
   \<and> coords_to_position 8 0 = Inr ''i1'' \<and> position_to_coords ''i1'' = Inr (8, 0)"
  using position_coords_round_trip [of "''e5''" 8 0]
  by (simp add: valid_position_def position_to_coords_def coords_to_position_def
      py_int_def ord_def chr_letter_table str_digit_table)

section \<open>Rejected moves\<close>

text \<open>
  Claim C3. A call of \<open>make_move\<close> that returns \<open>False\<close>, whatever the reason (the game
  is over, or the validator rejects the move for its format, its direction, the
  ownership of the source, the destination or the path), leaves the whole game (board,
  both captured counts and the player to move) as it was; and these are the only ways to
  get \<open>False\<close>. The validator \<open>is_valid_move\<close> only reads the game: it assigns no field
  and calls no method that does, which is why its model returns a verdict and no game.
\<close>

theorem rejected_move_changes_nothing:
  "(make_move g string_moved_from string_moved_to = Inr (False, g')) =
     ((get_game_state g \<noteq> UNFINISHED
        \<or> (\<exists>m. is_valid_move g string_moved_from string_moved_to = Inr (Reject m)))
      \<and> g' = g)"
  by (auto simp: make_move_def split: sum.splits verdict.splits prod.splits)

theorem rejected_move_changes_nothing_witness:
  "is_valid_move init_game ''a1'' ''b2'' = Inr (Reject NoDiagonalMovement)
   \<and> make_move init_game ''a1'' ''b2'' = Inr (False, init_game)"
proof -
  have v: "is_valid_move init_game ''a1'' ''b2'' = Inr (Reject NoDiagonalMovement)"
    by code_simp
  with rejected_move_changes_nothing [of init_game "''a1''" "''b2''" init_game]
  show ?thesis by simp
qed

section \<open>Inputs on which the engine raises or miscounts\<close>

text \<open>
  Claim C4 says that \<open>make_move\<close> returns for every pair of strings. On a new game,
  \<open>make_move('a1', 'ax')\<close> passes the checks of the lengths, of the row letters and of
  the direction, and then \<open>int('x')\<close> raises \<open>ValueError\<close>: the column check that
  would print "Invalid column to" is never reached.
\<close>

theorem non_digit_column_raises:
  "make_move init_game ''a1'' ''ax'' = Inl (ValueError, init_game)"
  by code_simp

text \<open>
  Claim C2 says that a captured count grows by the number of pieces removed, and that a
  scan whose run of enemy pieces reaches the edge of the board adds nothing. On a new
  game, \<open>make_move('a1', 'h1')\<close> puts a black piece next to the red piece on \<open>i1\<close>; the
  \<open>'colplus'\<close> scan counts that piece, leaves the loop at the edge and falls through to
  the last statement of \<open>try_capture\<close>: Red's captured count becomes 1 while all nine
  red pieces are still on the board.
\<close>

theorem edge_run_is_counted:
  "make_move init_game ''a1'' ''h1'' = Inr (True, game_after (make_move init_game ''a1'' ''h1''))
   \<and> pieces_on_board init_game RED = 9
   \<and> pieces_on_board (game_after (make_move init_game ''a1'' ''h1'')) RED = 9
   \<and> get_num_captured_pieces init_game RED = Inr 0
   \<and> get_num_captured_pieces (game_after (make_move init_game ''a1'' ''h1'')) RED = Inr 1"
  by code_simp

text \<open>
  Claim C1 says that a flank closed in any of the four directions captures the run. After
  \<open>a3-e3\<close> and \<open>i2-e2\<close>, Black's \<open>a1-e1\<close> is legal and closes a flank on the red piece on
  \<open>e2\<close> against the black piece on \<open>e3\<close>, in the direction \<open>'rowplus'\<close>. The call raises
  \<open>UnboundLocalError\<close>: the piece has moved, the red piece is still on \<open>e2\<close>, nothing is
  counted and the turn has not passed.
\<close>

theorem rowplus_capture_raises:
  "get_square_occupant flank_opening ''e2'' = Inr RED
   \<and> get_square_occupant flank_opening ''e3'' = Inr BLACK
   \<and> current_player flank_opening = BLACK
   \<and> is_valid_move flank_opening ''a1'' ''e1'' = Inr Accept
   \<and> make_move flank_opening ''a1'' ''e1''
       = Inl (UnboundLocalError, game_after (make_move flank_opening ''a1'' ''e1''))
   \<and> get_square_occupant (game_after (make_move flank_opening ''a1'' ''e1'')) ''e1'' = Inr BLACK
   \<and> get_square_occupant (game_after (make_move flank_opening ''a1'' ''e1'')) ''e2'' = Inr RED
   \<and> get_num_captured_pieces (game_after (make_move flank_opening ''a1'' ''e1'')) RED = Inr 0
   \<and> current_player (game_after (make_move flank_opening ''a1'' ''e1'')) = BLACK"
  by code_simp

section \<open>Whose turn it is\<close>

lemma set_square_status_frame:
  "set_square_status g position piece = Inr g' \<Longrightarrow>
     current_player g' = current_player g \<and> captured_pieces g' = captured_pieces g"
  by (auto simp: set_square_status_def split: sum.splits prod.splits)

lemma add_captured_frame:
  "add_captured g enemy n = Inr g' \<Longrightarrow>
     current_player g' = current_player g \<and> board_status g' = board_status g"
  by (auto simp: add_captured_def split: option.splits)

lemma clear_cells_frame:
  "clear_cells g cells = Inr g' \<Longrightarrow>
     current_player g' = current_player g \<and> captured_pieces g' = captured_pieces g"
proof (induction cells arbitrary: g)
  case Nil
  then show ?case by simp
next
  case (Cons xy cells)
  obtain x y where xy: "xy = (x, y)" by (cases xy)
  from Cons.prems obtain position g1 where
    s: "set_square_status g position NONE = Inr g1" and r: "clear_cells g1 cells = Inr g'"
    by (auto simp: xy split: sum.splits)
  from Cons.IH [OF r] set_square_status_frame [OF s] show ?case by simp
qed

lemma try_capture_player:
  "try_capture g color enemy x y d = Inr g' \<Longrightarrow> current_player g' = current_player g"
  by (auto simp: try_capture_def Let_def
      split: sum.splits loop_exit.splits direction.splits
      dest!: clear_cells_frame add_captured_frame)

lemma corner_chain_player:
  "corner_chain g s color enemy entries = Inr g' \<Longrightarrow> current_player g' = current_player g"
proof (induction entries)
  case Nil
  then show ?case by simp
next
  case (Cons entry entries)
  then show ?case
    by (auto simp: corner_take_def split: sum.splits bool.splits if_splits
        dest!: set_square_status_frame add_captured_frame)
qed

lemma directional_scans_player:
  "directional_scans g s color enemy = Inr g' \<Longrightarrow> current_player g' = current_player g"
  by (auto simp: directional_scans_def split: sum.splits prod.splits if_splits
      dest!: try_capture_player)

lemma piece_capture_player:
  "piece_capture g s color = Inr g' \<Longrightarrow> current_player g' = current_player g"
  by (auto simp: piece_capture_def Let_def split: sum.splits
      dest!: corner_chain_player directional_scans_player)

lemma is_valid_move_accept_source:
  "is_valid_move g f t = Inr Accept \<Longrightarrow>
     get_square_occupant g f = Inr (current_player g) \<and> current_player g \<noteq> NONE
     \<and> get_square_occupant g t = Inr NONE"
  by (auto simp: is_valid_move_def Let_def get_active_player_def
      split: if_splits sum.splits prod.splits)

text \<open>
  Claim C7, as the code has it. The claim says that the player to move changes after
  every accepted move that does not end the game and stays after the move that ends it.
  \<open>make_move\<close> does not look at the state of the game after the move: whenever it
  returns \<open>True\<close> the player to move has changed, from \<open>BLACK\<close> to \<open>RED\<close> or from
  \<open>RED\<close> to \<open>BLACK\<close>, also on the move that ends the game; whenever it returns
  \<open>False\<close> the player to move is the same. (A call that raises is neither.)
\<close>

theorem accepted_move_passes_the_turn:
  "(make_move g string_moved_from string_moved_to = Inr (True, g') \<longrightarrow>
      (current_player g = BLACK \<and> current_player g' = RED)
      \<or> (current_player g = RED \<and> current_player g' = BLACK))
   \<and> (make_move g string_moved_from string_moved_to = Inr (False, g') \<longrightarrow>
      current_player g' = current_player g)"
proof (intro conjI impI)
  assume m: "make_move g string_moved_from string_moved_to = Inr (True, g')"
  then obtain g1 g2 g3 where
    v: "is_valid_move g string_moved_from string_moved_to = Inr Accept"
    and s1: "set_square_status g string_moved_to (current_player g) = Inr g1"
    and s2: "set_square_status g1 string_moved_from NONE = Inr g2"
    and pc: "piece_capture g2 string_moved_to (current_player g) = Inr g3"
    and g': "g' = g3\<lparr>current_player := (if current_player g3 = RED then BLACK else RED)\<rparr>"
    by (auto simp: make_move_def split: if_splits sum.splits verdict.splits
        dest: is_valid_move_accept_source)
  from set_square_status_frame [OF s1] set_square_status_frame [OF s2] piece_capture_player [OF pc]
  have "current_player g3 = current_player g" by simp
  moreover from is_valid_move_accept_source [OF v] have "current_player g \<noteq> NONE" by simp
  ultimately show "(current_player g = BLACK \<and> current_player g' = RED)
      \<or> (current_player g = RED \<and> current_player g' = BLACK)"
    by (cases "current_player g") (simp_all add: g')
next
  assume "make_move g string_moved_from string_moved_to = Inr (False, g')"
  then show "current_player g' = current_player g"
    by (auto simp: make_move_def split: if_splits sum.splits verdict.splits)
qed

theorem accepted_move_passes_the_turn_witness:
  "make_move init_game ''a1'' ''b1'' = Inr (True, game_after (make_move init_game ''a1'' ''b1''))
   \<and> current_player init_game = BLACK
   \<and> current_player (game_after (make_move init_game ''a1'' ''b1'')) = RED
   \<and> make_move init_game ''a1'' ''b2'' = Inr (False, init_game)"
proof -
  have a: "make_move init_game ''a1'' ''b1'' = Inr (True, game_after (make_move init_game ''a1'' ''b1''))"
    and b: "make_move init_game ''a1'' ''b2'' = Inr (False, init_game)"
    and c: "current_player init_game = BLACK"
    by code_simp+
  from accepted_move_passes_the_turn [of init_game "''a1''" "''b1''" "game_after (make_move init_game ''a1'' ''b1'')"]
    accepted_move_passes_the_turn [of init_game "''a1''" "''b2''" init_game] a b c
  show ?thesis by simp
qed

text \<open>
  The claim as stated fails in \<open>late_game\<close>: Black's \<open>a5-e5\<close> captures the red piece
  on \<open>e4\<close>, Red is left with one piece, the game is won by Black, and it is Red's turn.
\<close>

theorem terminal_move_passes_the_turn:
  "get_game_state late_game = UNFINISHED
   \<and> current_player late_game = BLACK
   \<and> make_move late_game ''a5'' ''e5'' = Inr (True, game_after (make_move late_game ''a5'' ''e5''))
   \<and> get_game_state (game_after (make_move late_game ''a5'' ''e5'')) = BLACK_WON
   \<and> current_player (game_after (make_move late_game ''a5'' ''e5'')) = RED"
  by code_simp

section \<open>The state of the game\<close>

lemma fold_count_cell:
  "fold count_cell row (b, r) = (b + int (count_list row BLACK), r + int (count_list row RED))"
  by (induction row arbitrary: b r) (simp_all add: count_cell_def)

lemma fold_count_rows:
  "fold (\<lambda>row acc. fold count_cell row acc) board (b, r) =
     (b + int (sum_list (map (\<lambda>row. count_list row BLACK) board)),
      r + int (sum_list (map (\<lambda>row. count_list row RED) board)))"
  by (induction board arbitrary: b r) (simp_all add: fold_count_cell)

lemma count_pieces_on_board:
  "count_pieces (board_status g) = (int (pieces_on_board g BLACK), int (pieces_on_board g RED))"
  by (simp add: count_pieces_def pieces_on_board_def fold_count_rows)

lemma get_game_state_counts:
  "get_game_state g =
     (if 1 < pieces_on_board g BLACK \<and> 1 < pieces_on_board g RED then UNFINISHED
      else if 1 < pieces_on_board g BLACK then BLACK_WON else RED_WON)"
  by (simp add: get_game_state_def count_pieces_on_board)

text \<open>
  Claim C6. \<open>get_game_state\<close> depends on the numbers of black and red pieces on the
  board only: it is \<open>UNFINISHED\<close> exactly when both colours have more than one piece;
  when one colour has more than one piece and the other at most one, the colour with
  more than one piece has won. And when the state is not \<open>UNFINISHED\<close>, any call of
  \<open>make_move\<close>, whoever is to move, returns \<open>False\<close> and leaves the game as it was (so
  the state stays the same and the next call is rejected again).
\<close>

theorem game_state_from_piece_counts:
  "(get_game_state g = UNFINISHED \<longleftrightarrow> 1 < pieces_on_board g BLACK \<and> 1 < pieces_on_board g RED)
   \<and> (1 < pieces_on_board g BLACK \<and> pieces_on_board g RED \<le> 1 \<longrightarrow> get_game_state g = BLACK_WON)
   \<and> (1 < pieces_on_board g RED \<and> pieces_on_board g BLACK \<le> 1 \<longrightarrow> get_game_state g = RED_WON)
   \<and> (pieces_on_board h BLACK = pieces_on_board g BLACK \<and> pieces_on_board h RED = pieces_on_board g RED
        \<longrightarrow> get_game_state h = get_game_state g)
   \<and> (get_game_state g \<noteq> UNFINISHED \<longrightarrow>
        make_move g string_moved_from string_moved_to = Inr (False, g))"
  by (auto simp: get_game_state_counts make_move_def)

theorem game_state_from_piece_counts_witness:
  "pieces_on_board won_game BLACK = 2 \<and> pieces_on_board won_game RED = 1
   \<and> get_game_state won_game = BLACK_WON
   \<and> current_player won_game = RED
   \<and> make_move won_game ''i9'' ''i8'' = Inr (False, won_game)
   \<and> pieces_on_board init_game BLACK = 9 \<and> pieces_on_board init_game RED = 9
   \<and> get_game_state init_game = UNFINISHED"
proof -
  have c: "pieces_on_board won_game BLACK = 2" "pieces_on_board won_game RED = 1"
    "current_player won_game = RED"
    "pieces_on_board init_game BLACK = 9" "pieces_on_board init_game RED = 9"
    by code_simp+
  from c game_state_from_piece_counts [of won_game won_game "''i9''" "''i8''"]
    game_state_from_piece_counts [of init_game init_game "''i9''" "''i8''"]
  show ?thesis by simp
qed

section \<open>Cells of a well-formed board\<close>

lemma wf_game_board_ok: "wf_game g \<Longrightarrow> board_ok (board_status g)"
  by (simp add: wf_game_def board_ok_def)

lemma board_ok_row:
  assumes "board_ok board" "i < 9"
  shows "length (board ! i) = 9"
  using assms by (simp add: board_ok_def list_all_length)

lemma board_ok_dims:
  assumes "board_ok board" "on_board x y"
  shows "nat x < length board" "nat y < length (board ! nat x)" "length board = 9"
    "length (board ! nat x) = 9"
proof -
  from assms(2) have x: "nat x < 9" and y: "nat y < 9"
    by (auto simp: on_board_def)
  from assms(1) show len: "length board = 9" by (simp add: board_ok_def)
  from board_ok_row [OF assms(1) x] show row: "length (board ! nat x) = 9" .
  from x len show "nat x < length board" by simp
  from y row show "nat y < length (board ! nat x)" by simp
qed

lemma py_index_on_board: "0 \<le> i \<Longrightarrow> i \<le> 8 \<Longrightarrow> py_index 9 i = Inr (nat i)"
  by (simp add: py_index_def)

lemma get_square_occupant_cell:
  assumes "board_ok (board_status g)" "position_to_coords p = Inr (x, y)" "on_board x y"
  shows "get_square_occupant g p = Inr (cell g x y)"
proof -
  from board_ok_dims [OF assms(1,3)]
  have "length (board_status g) = 9" "length (board_status g ! nat x) = 9"
    by simp_all
  with assms(2,3) show ?thesis
    by (simp add: get_square_occupant_def cell_def on_board_def py_index_on_board)
qed

lemma set_square_status_put:
  assumes "board_ok (board_status g)" "position_to_coords p = Inr (x, y)" "on_board x y"
  shows "set_square_status g p piece = Inr (put g x y piece)"
proof -
  from board_ok_dims [OF assms(1,3)]
  have "length (board_status g) = 9" "length (board_status g ! nat x) = 9"
    by simp_all
  with assms(2,3) show ?thesis
    by (simp add: set_square_status_def put_def on_board_def py_index_on_board)
qed

lemma coords_on_board:
  assumes "on_board x y"
  obtains p where "coords_to_position x y = Inr p" "valid_position p" "position_to_coords p = Inr (x, y)"
  using coords_to_position_valid [of x y] assms by (auto simp: on_board_def)

lemma position_on_board:
  assumes "valid_position p"
  obtains x y where "position_to_coords p = Inr (x, y)" "on_board x y"
  using position_to_coords_valid [OF assms] by (auto simp: on_board_def)

lemma board_ok_put:
  assumes "board_ok (board_status g)"
  shows "board_ok (board_status (put g x y piece))"
proof (cases "nat x < length (board_status g)")
  case True
  with assms show ?thesis
    by (auto simp: board_ok_def put_def list_all_length nth_list_update)
next
  case False
  then have "(board_status g)[nat x := (board_status g ! nat x)[nat y := piece]] = board_status g"
    by (intro list_update_beyond) simp
  with assms show ?thesis
    by (simp add: put_def)
qed

lemma cell_put:
  assumes "board_ok (board_status g)" "on_board x y" "on_board x' y'"
  shows "cell (put g x y piece) x' y' = (if x' = x \<and> y' = y then piece else cell g x' y')"
proof -
  from board_ok_dims [OF assms(1,2)] board_ok_dims [OF assms(1,3)]
  have "nat x < length (board_status g)" "nat y < length (board_status g ! nat x)"
    "nat x' < length (board_status g)"
    by simp_all
  moreover from assms have "(nat x' = nat x) = (x' = x)" "(nat y' = nat y) = (y' = y)"
    by (auto simp: on_board_def)
  ultimately show ?thesis
    by (auto simp: cell_def put_def nth_list_update)
qed

subsection \<open>Boards that only lose pieces of one colour\<close>

lemma shrinks_refl: "shrinks enemy board board"
  by (simp add: shrinks_def list_all2_refl)

lemma shrinks_trans:
  assumes "shrinks enemy a b" "shrinks enemy b c"
  shows "shrinks enemy a c"
proof -
  let ?P = "\<lambda>old new. new = old \<or> (new = NONE \<and> old = enemy)"
  have row: "list_all2 ?P r t" if "list_all2 ?P r s" "list_all2 ?P s t" for r s t
    by (rule list_all2_trans [OF _ that]) auto
  from assms show ?thesis
    unfolding shrinks_def by (intro list_all2_trans [OF row])
qed

lemma shrinks_board_ok:
  assumes "shrinks enemy board board'" "board_ok board"
  shows "board_ok board'"
proof -
  let ?P = "\<lambda>old new. new = old \<or> (new = NONE \<and> old = enemy)"
  from assms(1) have rel: "list_all2 (list_all2 ?P) board board'"
    by (simp add: shrinks_def)
  then have len: "length board' = length board"
    by (simp add: list_all2_lengthD)
  have rows: "length (board' ! i) = length (board ! i)" if "i < length board" for i
    using list_all2_nthD [OF rel that] by (simp add: list_all2_lengthD)
  from len rows assms(2) show ?thesis
    by (simp add: board_ok_def list_all_length)
qed


lemma shrinks_put:
  assumes "board_ok (board_status g)" "on_board x y" "cell g x y = enemy \<or> cell g x y = NONE"
  shows "shrinks enemy (board_status g) (board_status (put g x y NONE))"
proof -
  let ?P = "\<lambda>old new. new = old \<or> (new = NONE \<and> old = enemy)"
  let ?b = "board_status g"
  from board_ok_dims [OF assms(1,2)]
  have i: "nat x < length ?b" and j: "nat y < length (?b ! nat x)"
    by simp_all
  have "list_all2 ?P (?b ! nat x) ((?b ! nat x)[nat y := NONE])"
    using assms(3) j by (auto simp: list_all2_conv_all_nth nth_list_update cell_def)
  with i have "list_all2 (list_all2 ?P) ?b (?b[nat x := (?b ! nat x)[nat y := NONE]])"
    by (auto simp: list_all2_conv_all_nth nth_list_update list_all2_refl)
  then show ?thesis by (simp add: shrinks_def put_def)
qed

lemma shrinks_row_count:
  assumes "list_all2 (\<lambda>old new. new = old \<or> (new = NONE \<and> old = enemy)) r r'"
  shows "count_list r' enemy \<le> count_list r enemy"
    and "c \<noteq> NONE \<Longrightarrow> c \<noteq> enemy \<Longrightarrow> count_list r' c = count_list r c"
  using assms by (induction rule: list_all2_induct) auto

lemma shrinks_pieces:
  assumes "shrinks enemy (board_status g) (board_status g')"
  shows "pieces_on_board g' enemy \<le> pieces_on_board g enemy"
    and "c \<noteq> NONE \<Longrightarrow> c \<noteq> enemy \<Longrightarrow> pieces_on_board g' c = pieces_on_board g c"
  using assms unfolding shrinks_def pieces_on_board_def
  by (induction rule: list_all2_induct) (auto dest: shrinks_row_count simp: add_le_mono)

subsection \<open>Counting pieces after a write\<close>

lemma count_list_update:
  "i < length xs \<Longrightarrow>
     count_list (xs[i := v]) c + (if xs ! i = c then 1 else 0) = count_list xs c + (if v = c then 1 else 0)"
proof (induction xs arbitrary: i)
  case Nil
  then show ?case by simp
next
  case (Cons a xs)
  show ?case
  proof (cases i)
    case 0
    then show ?thesis by simp
  next
    case (Suc j)
    with Cons.prems have "j < length xs" by simp
    from Cons.IH [OF this] Suc show ?thesis by (auto split: if_splits)
  qed
qed

lemma sum_list_map_update:
  fixes f :: "'a \<Rightarrow> nat"
  shows "i < length xs \<Longrightarrow> sum_list (map f (xs[i := a])) + f (xs ! i) = sum_list (map f xs) + f a"
proof (induction xs arbitrary: i)
  case Nil
  then show ?case by simp
next
  case (Cons b xs)
  show ?case
  proof (cases i)
    case 0
    then show ?thesis by simp
  next
    case (Suc j)
    with Cons.prems have "j < length xs" by simp
    from Cons.IH [OF this] Suc show ?thesis by simp
  qed
qed

lemma pieces_put:
  assumes "board_ok (board_status g)" "on_board x y"
  shows "pieces_on_board (put g x y v) c + (if cell g x y = c then 1 else 0)
           = pieces_on_board g c + (if v = c then 1 else 0)"
proof -
  let ?b = "board_status g"
  from board_ok_dims [OF assms]
  have i: "nat x < length ?b" and j: "nat y < length (?b ! nat x)"
    by simp_all
  have "pieces_on_board (put g x y v) c + count_list (?b ! nat x) c
      = pieces_on_board g c + count_list ((?b ! nat x)[nat y := v]) c"
    unfolding pieces_on_board_def put_def
    using sum_list_map_update [OF i, of "\<lambda>row. count_list row c" "(?b ! nat x)[nat y := v]"]
    by simp
  with count_list_update [OF j, of v c] show ?thesis
    by (simp add: cell_def split: if_splits)
qed

section \<open>The scan of a line and the emptying of a run\<close>

lemma track_on_board:
  assumes "track d xy" "loop_cond d (fst xy) (snd xy)"
  shows "on_board (fst xy) (snd xy)"
  using assms by (cases xy; cases d) (auto simp: track_def loop_cond_def on_board_def)

lemma track_advance:
  assumes "track d xy" "loop_cond d (fst xy) (snd xy)"
  shows "track d (advance d xy)"
  using assms by (cases xy; cases d) (auto simp: track_def loop_cond_def advance_def)

lemma on_board_track: "on_board x y \<Longrightarrow> track d (x, y)"
  by (cases d) (auto simp: track_def on_board_def)

lemma occupant_three:
  assumes "color \<noteq> NONE" "enemy \<noteq> NONE" "color \<noteq> enemy"
  shows "piece = NONE \<or> piece = enemy \<or> piece = color"
  using assms by (cases piece; cases color; cases enemy) auto

lemma scan_run:
  assumes "board_ok (board_status g)" "track d xy"
    and "color \<noteq> NONE" "enemy \<noteq> NONE" "color \<noteq> enemy"
  shows "\<exists>ex. scan g color enemy d xy c = Inr ex
     \<and> (\<forall>n. ex = Broke n \<or> ex = Exhausted n \<longrightarrow>
           c \<le> n \<and> list_all (\<lambda>(x, y). on_board x y \<and> cell g x y = enemy) (run_cells d xy (nat (n - c))))"
  using assms
proof (induction g color enemy d xy c rule: scan.induct)
  case (1 g color enemy d xy c)
  show ?case
  proof (cases "loop_cond d (fst xy) (snd xy)")
    case False
    then show ?thesis by (simp add: scan.simps)
  next
    case True
    from track_on_board [OF "1.prems"(2) True] have ob: "on_board (fst xy) (snd xy)" .
    then obtain p where p: "coords_to_position (fst xy) (snd xy) = Inr p"
      and pc: "position_to_coords p = Inr (fst xy, snd xy)"
      by (rule coords_on_board)
    from get_square_occupant_cell [OF "1.prems"(1) pc ob]
    have get: "get_square_occupant g p = Inr (cell g (fst xy) (snd xy))" .
    let ?piece = "cell g (fst xy) (snd xy)"
    from occupant_three [OF "1.prems"(3,4,5), of ?piece]
    consider "?piece = NONE" | "?piece \<noteq> NONE" "?piece = enemy" | "?piece \<noteq> NONE" "?piece \<noteq> enemy" "?piece = color"
      by blast
    then show ?thesis
    proof cases
      case 1
      with True p get show ?thesis by (simp add: scan.simps)
    next
      case 2
      from "1.IH" [OF True p get 2 "1.prems"(1) track_advance [OF "1.prems"(2) True] "1.prems"(3,4,5)]
      obtain ex where ex: "scan g color enemy d (advance d xy) (c + 1) = Inr ex"
        and run: "\<And>n. ex = Broke n \<or> ex = Exhausted n \<Longrightarrow>
           c + 1 \<le> n \<and> list_all (\<lambda>(x, y). on_board x y \<and> cell g x y = enemy)
             (run_cells d (advance d xy) (nat (n - (c + 1))))"
        by blast
      have "c \<le> n \<and> list_all (\<lambda>(x, y). on_board x y \<and> cell g x y = enemy) (run_cells d xy (nat (n - c)))"
        if "ex = Broke n \<or> ex = Exhausted n" for n
      proof -
        from run [OF that] have le: "c + 1 \<le> n"
          and rest: "list_all (\<lambda>(x, y). on_board x y \<and> cell g x y = enemy)
             (run_cells d (advance d xy) (nat (n - (c + 1))))"
          by simp_all
        from le have "nat (n - c) = Suc (nat (n - (c + 1)))" by simp
        with rest ob 2 le show ?thesis
          by (cases xy) simp
      qed
      moreover from True p get 2 ex have "scan g color enemy d xy c = Inr ex"
        by (simp add: scan.simps [of g color enemy d xy c])
      ultimately show ?thesis by blast
    next
      case 3
      with True p get show ?thesis by (simp add: scan.simps)
    qed
  qed
qed

lemma py_range_down: "0 \<le> n \<Longrightarrow> py_range a (a - n) (- 1) = map (\<lambda>k. a - int k) [0 ..< nat n]"
  by (simp add: py_range_def)

lemma py_range_up: "0 \<le> n \<Longrightarrow> py_range a (a + n) 1 = map (\<lambda>k. a + int k) [0 ..< nat n]"
  by (simp add: py_range_def)

lemma map_upt_shift: "map f [0 ..< Suc m] = f 0 # map (\<lambda>k. f (Suc k)) [0 ..< m]"
  by (simp add: upt_conv_Cons map_Suc_upt [symmetric] del: upt_Suc)

lemma run_cells_rowminus: "run_cells rowminus (x, y) m = map (\<lambda>k. (x, y - int k)) [0 ..< m]"
proof (induction m arbitrary: y)
  case 0
  show ?case by simp
next
  case (Suc m)
  have "run_cells rowminus (x, y) (Suc m) = (x, y) # map (\<lambda>k. (x, y - 1 - int k)) [0 ..< m]"
    by (simp add: advance_def Suc.IH)
  also have "\<dots> = map (\<lambda>k. (x, y - int k)) [0 ..< Suc m]"
    by (subst map_upt_shift) (simp add: algebra_simps)
  finally show ?case .
qed

lemma run_cells_colminus: "run_cells colminus (x, y) m = map (\<lambda>k. (x - int k, y)) [0 ..< m]"
proof (induction m arbitrary: x)
  case 0
  show ?case by simp
next
  case (Suc m)
  have "run_cells colminus (x, y) (Suc m) = (x, y) # map (\<lambda>k. (x - 1 - int k, y)) [0 ..< m]"
    by (simp add: advance_def Suc.IH)
  also have "\<dots> = map (\<lambda>k. (x - int k, y)) [0 ..< Suc m]"
    by (subst map_upt_shift) (simp add: algebra_simps)
  finally show ?case .
qed

lemma run_cells_colplus: "run_cells colplus (x, y) m = map (\<lambda>k. (x + int k, y)) [0 ..< m]"
proof (induction m arbitrary: x)
  case 0
  show ?case by simp
next
  case (Suc m)
  have "run_cells colplus (x, y) (Suc m) = (x, y) # map (\<lambda>k. (x + 1 + int k, y)) [0 ..< m]"
    by (simp add: advance_def Suc.IH)
  also have "\<dots> = map (\<lambda>k. (x + int k, y)) [0 ..< Suc m]"
    by (subst map_upt_shift) (simp add: algebra_simps)
  finally show ?case .
qed

lemma captured_cells:
  assumes "0 \<le> n"
  shows "map (\<lambda>index. (x, index)) (py_range y (y - n) (- 1)) = run_cells rowminus (x, y) (nat n)"
    and "map (\<lambda>index. (index, y)) (py_range x (x - n) (- 1)) = run_cells colminus (x, y) (nat n)"
    and "map (\<lambda>index. (index, y)) (py_range x (x + n) 1) = run_cells colplus (x, y) (nat n)"
  using assms
  by (simp_all add: py_range_down py_range_up run_cells_rowminus run_cells_colminus
      run_cells_colplus o_def)

lemma clear_cells_shrinks:
  assumes "board_ok (board_status g)"
    and "list_all (\<lambda>(x, y). on_board x y \<and> (cell g x y = enemy \<or> cell g x y = NONE)) cells"
  shows "\<exists>g'. clear_cells g cells = Inr g' \<and> shrinks enemy (board_status g) (board_status g')
     \<and> current_player g' = current_player g \<and> captured_pieces g' = captured_pieces g"
  using assms
proof (induction cells arbitrary: g)
  case Nil
  show ?case by (simp add: shrinks_refl)
next
  case (Cons xy cells)
  obtain x y where xy: "xy = (x, y)" by (cases xy)
  from Cons.prems(2) have ob: "on_board x y" and c: "cell g x y = enemy \<or> cell g x y = NONE"
    and rest: "list_all (\<lambda>(x, y). on_board x y \<and> (cell g x y = enemy \<or> cell g x y = NONE)) cells"
    by (simp_all add: xy)
  from ob obtain p where p: "coords_to_position x y = Inr p"
    and pc: "position_to_coords p = Inr (x, y)"
    by (rule coords_on_board)
  let ?g1 = "put g x y NONE"
  from set_square_status_put [OF Cons.prems(1) pc ob]
  have set: "set_square_status g p NONE = Inr ?g1" .
  have ok1: "board_ok (board_status ?g1)" by (rule board_ok_put [OF Cons.prems(1)])
  have "on_board a b \<and> (cell ?g1 a b = enemy \<or> cell ?g1 a b = NONE)" if "(a, b) \<in> set cells" for a b
  proof -
    from rest that have ob': "on_board a b" and c': "cell g a b = enemy \<or> cell g a b = NONE"
      by (auto simp: list_all_iff)
    from c' show ?thesis
      by (auto simp: ob' cell_put [OF Cons.prems(1) ob ob'])
  qed
  then have rest1: "list_all (\<lambda>(x, y). on_board x y \<and> (cell ?g1 x y = enemy \<or> cell ?g1 x y = NONE)) cells"
    by (auto simp: list_all_iff)
  from Cons.IH [OF ok1 rest1] obtain g' where
    g': "clear_cells ?g1 cells = Inr g'" "shrinks enemy (board_status ?g1) (board_status g')"
      "current_player g' = current_player ?g1" "captured_pieces g' = captured_pieces ?g1"
    by blast
  from shrinks_trans [OF shrinks_put [OF Cons.prems(1) ob c] g'(2)]
  have "shrinks enemy (board_status g) (board_status g')" .
  with g' p set show ?case
    by (simp add: xy put_def)
qed

section \<open>What capture resolution does to a game\<close>

lemma capture_step_refl: "map_of (captured_pieces g) enemy \<noteq> None \<Longrightarrow> capture_step enemy g g"
  by (auto simp: capture_step_def shrinks_refl)

lemma capture_step_trans:
  assumes "capture_step enemy g g1" "capture_step enemy g1 g2"
  shows "capture_step enemy g g2"
  using assms shrinks_trans [of enemy "board_status g" "board_status g1" "board_status g2"]
  by (fastforce simp: capture_step_def)

lemma ready_step:
  assumes "ready enemy g" "capture_step enemy g g'"
  shows "ready enemy g'"
  using assms shrinks_board_ok [of enemy "board_status g" "board_status g'"]
  by (auto simp: ready_def capture_step_def)

lemma capture_result_refl: "ready enemy g \<Longrightarrow> capture_result enemy g (Inr g)"
  by (simp add: capture_result_def ready_def capture_step_refl)

lemma capture_result_then:
  assumes "capture_result enemy g r"
    and "\<And>g1. capture_step enemy g g1 \<Longrightarrow> capture_result enemy g1 (k g1)"
  shows "capture_result enemy g (case r of Inl e \<Rightarrow> Inl e | Inr g1 \<Rightarrow> k g1)"
proof (cases r)
  case (Inl e)
  with assms(1) show ?thesis by simp
next
  case (Inr g1)
  with assms(1) have s: "capture_step enemy g g1" by (simp add: capture_result_def)
  from assms(2) [OF s] show ?thesis
    using Inr capture_step_trans [OF s]
    by (auto simp: capture_result_def split: sum.splits)
qed

lemma add_captured_step:
  assumes "map_of (captured_pieces g) enemy = Some c" "0 \<le> n"
  shows "add_captured g enemy n
           = Inr (g\<lparr>captured_pieces := AList.update enemy (c + n) (captured_pieces g)\<rparr>)"
    and "capture_step enemy g (g\<lparr>captured_pieces := AList.update enemy (c + n) (captured_pieces g)\<rparr>)"
  using assms by (simp_all add: add_captured_def capture_step_def shrinks_refl update_conv')

lemma clear_then_count:
  assumes r: "ready enemy g" and n: "0 \<le> n"
    and cells: "list_all (\<lambda>(x, y). on_board x y \<and> cell g x y = enemy) cells"
  shows "capture_result enemy g
    (case clear_cells g cells of Inl r \<Rightarrow> Inl r | Inr g' \<Rightarrow> add_captured g' enemy n)"
proof -
  from r obtain c where ok: "board_ok (board_status g)" and key: "map_of (captured_pieces g) enemy = Some c"
    by (auto simp: ready_def)
  from cells have "list_all (\<lambda>(x, y). on_board x y \<and> (cell g x y = enemy \<or> cell g x y = NONE)) cells"
    by (auto simp: list_all_iff)
  from clear_cells_shrinks [OF ok this] obtain g1 where
    g1: "clear_cells g cells = Inr g1" "shrinks enemy (board_status g) (board_status g1)"
      "current_player g1 = current_player g" "captured_pieces g1 = captured_pieces g"
    by blast
  from key g1(4) have key1: "map_of (captured_pieces g1) enemy = Some c" by simp
  from g1 key have "capture_step enemy g g1"
    by (simp add: capture_step_def)
  from capture_step_trans [OF this add_captured_step(2) [OF key1 n]]
  show ?thesis
    by (simp add: g1(1) add_captured_step(1) [OF key1 n] capture_result_def)
qed

lemma try_capture_result:
  assumes r: "ready enemy g" and ob: "on_board x y"
    and colors: "color \<noteq> NONE" "enemy \<noteq> NONE" "color \<noteq> enemy"
  shows "capture_result enemy g (try_capture g color enemy x y d)"
proof -
  from r obtain c where ok: "board_ok (board_status g)" and key: "map_of (captured_pieces g) enemy = Some c"
    by (auto simp: ready_def)
  from scan_run [OF ok on_board_track [OF ob] colors, of d 0]
  obtain ex where ex: "scan g color enemy d (x, y) 0 = Inr ex"
    and run: "\<And>n. ex = Broke n \<or> ex = Exhausted n \<Longrightarrow>
        0 \<le> n \<and> list_all (\<lambda>(x, y). on_board x y \<and> cell g x y = enemy) (run_cells d (x, y) (nat n))"
    by auto
  show ?thesis
  proof (cases ex)
    case Returned
    with ex r show ?thesis
      by (simp add: try_capture_def capture_result_refl)
  next
    case (Exhausted n)
    with run have "0 \<le> n" by simp
    from add_captured_step [OF key this] ex Exhausted show ?thesis
      by (simp add: try_capture_def capture_result_def)
  next
    case (Broke n)
    with run have n: "0 \<le> n"
      and cells: "list_all (\<lambda>(x, y). on_board x y \<and> cell g x y = enemy) (run_cells d (x, y) (nat n))"
      by simp_all
    show ?thesis
    proof (cases d)
      case rowplus
      with ex Broke r show ?thesis
        by (simp add: try_capture_def capture_result_def ready_def capture_step_refl)
    next
      case rowminus
      with ex Broke clear_then_count [OF r n cells] show ?thesis
        by (simp add: try_capture_def captured_cells [OF n])
    next
      case colminus
      with ex Broke clear_then_count [OF r n cells] show ?thesis
        by (simp add: try_capture_def captured_cells [OF n])
    next
      case colplus
      with ex Broke clear_then_count [OF r n cells] show ?thesis
        by (simp add: try_capture_def captured_cells [OF n])
    qed
  qed
qed

lemma guarded_try_capture_result:
  assumes "ready enemy g" "b \<Longrightarrow> on_board x y"
    and "color \<noteq> NONE" "enemy \<noteq> NONE" "color \<noteq> enemy"
  shows "capture_result enemy g (if b then try_capture g color enemy x y d else Inr g)"
  using assms by (simp add: try_capture_result capture_result_refl)

lemma directional_scans_result:
  assumes r: "ready enemy g" and s: "valid_position s"
    and colors: "color \<noteq> NONE" "enemy \<noteq> NONE" "color \<noteq> enemy"
  shows "capture_result enemy g (directional_scans g s color enemy)"
proof -
  from s obtain x y where xy: "position_to_coords s = Inr (x, y)" and ob: "on_board x y"
    by (rule position_on_board)
  have ob1: "on_board x (y - 1)" if "y > 1" using ob that by (simp add: on_board_def)
  have ob2: "on_board x (y + 1)" if "y < 8" using ob that by (simp add: on_board_def)
  have ob3: "on_board (x - 1) y" if "x > 1" using ob that by (simp add: on_board_def)
  have ob4: "on_board (x + 1) y" if "x < 8" using ob that by (simp add: on_board_def)
  have "capture_result enemy g
    (case (if y > 1 then try_capture g color enemy x (y - 1) rowminus else Inr g) of
        Inl r \<Rightarrow> Inl r
      | Inr g1 \<Rightarrow>
     (case (if y < 8 then try_capture g1 color enemy x (y + 1) rowplus else Inr g1) of
        Inl r \<Rightarrow> Inl r
      | Inr g2 \<Rightarrow>
     (case (if x > 1 then try_capture g2 color enemy (x - 1) y colminus else Inr g2) of
        Inl r \<Rightarrow> Inl r
      | Inr g3 \<Rightarrow>
        (if x < 8 then try_capture g3 color enemy (x + 1) y colplus else Inr g3))))"
  proof (rule capture_result_then)
    show "capture_result enemy g (if y > 1 then try_capture g color enemy x (y - 1) rowminus else Inr g)"
      by (rule guarded_try_capture_result [OF r ob1 colors])
  next
    fix g1 assume "capture_step enemy g g1"
    from ready_step [OF r this] have r1: "ready enemy g1" .
    show "capture_result enemy g1
     (case (if y < 8 then try_capture g1 color enemy x (y + 1) rowplus else Inr g1) of
        Inl r \<Rightarrow> Inl r
      | Inr g2 \<Rightarrow>
     (case (if x > 1 then try_capture g2 color enemy (x - 1) y colminus else Inr g2) of
        Inl r \<Rightarrow> Inl r
      | Inr g3 \<Rightarrow>
        (if x < 8 then try_capture g3 color enemy (x + 1) y colplus else Inr g3)))"
    proof (rule capture_result_then)
      show "capture_result enemy g1 (if y < 8 then try_capture g1 color enemy x (y + 1) rowplus else Inr g1)"
        by (rule guarded_try_capture_result [OF r1 ob2 colors])
    next
      fix g2 assume "capture_step enemy g1 g2"
      from ready_step [OF r1 this] have r2: "ready enemy g2" .
      show "capture_result enemy g2
       (case (if x > 1 then try_capture g2 color enemy (x - 1) y colminus else Inr g2) of
          Inl r \<Rightarrow> Inl r
        | Inr g3 \<Rightarrow>
          (if x < 8 then try_capture g3 color enemy (x + 1) y colplus else Inr g3))"
      proof (rule capture_result_then)
        show "capture_result enemy g2 (if x > 1 then try_capture g2 color enemy (x - 1) y colminus else Inr g2)"
          by (rule guarded_try_capture_result [OF r2 ob3 colors])
      next
        fix g3 assume "capture_step enemy g2 g3"
        from ready_step [OF r2 this] have r3: "ready enemy g3" .
        show "capture_result enemy g3 (if x < 8 then try_capture g3 color enemy (x + 1) y colplus else Inr g3)"
          by (rule guarded_try_capture_result [OF r3 ob4 colors])
      qed
    qed
  qed
  then show ?thesis
    by (simp add: directional_scans_def xy)
qed

section \<open>The corner cases and \<open>piece_capture\<close>\<close>

lemma position_to_coords_inj:
  assumes "valid_position p" "valid_position q" "position_to_coords p = position_to_coords q"
  shows "p = q"
  using position_to_coords_valid [OF assms(1)] position_to_coords_valid [OF assms(2)] assms(3)
  by auto

lemma square_cell:
  assumes "board_ok (board_status g)" "valid_position p"
  obtains x y where "position_to_coords p = Inr (x, y)" "on_board x y"
    "get_square_occupant g p = Inr (cell g x y)"
    "\<forall>piece. set_square_status g p piece = Inr (put g x y piece)"
proof -
  from assms(2) obtain x y where xy: "position_to_coords p = Inr (x, y)" and ob: "on_board x y"
    by (rule position_on_board)
  have "\<forall>piece. set_square_status g p piece = Inr (put g x y piece)"
    by (simp add: set_square_status_put [OF assms(1) xy ob])
  with xy ob get_square_occupant_cell [OF assms(1) xy ob] show thesis
    by (rule that)
qed

lemma corner_take_step:
  assumes r: "ready enemy g" and v: "valid_position corner"
    and e: "get_square_occupant g corner = Inr enemy"
    and key: "map_of (captured_pieces g) enemy = Some c"
  shows "\<exists>g'. corner_take g enemy corner = Inr g' \<and> capture_step enemy g g'
     \<and> get_square_occupant g' corner = Inr NONE
     \<and> map_of (captured_pieces g') enemy = Some (c + 1)"
proof -
  from r have ok: "board_ok (board_status g)" by (simp add: ready_def)
  from ok v obtain x y where xy: "position_to_coords corner = Inr (x, y)" and ob: "on_board x y"
    and get: "get_square_occupant g corner = Inr (cell g x y)"
    and set: "\<forall>piece. set_square_status g corner piece = Inr (put g x y piece)"
    by (rule square_cell)
  let ?g1 = "put g x y NONE"
  let ?g2 = "?g1\<lparr>captured_pieces := AList.update enemy (c + 1) (captured_pieces ?g1)\<rparr>"
  from e get have c: "cell g x y = enemy \<or> cell g x y = NONE" by simp
  have ok1: "board_ok (board_status ?g1)" by (rule board_ok_put [OF ok])
  from key have key1: "map_of (captured_pieces ?g1) enemy = Some c" by (simp add: put_def)
  from key shrinks_put [OF ok ob c] have s1: "capture_step enemy g ?g1"
    by (simp add: capture_step_def put_def)
  have take: "corner_take g enemy corner = Inr ?g2"
    by (simp add: corner_take_def set add_captured_step(1) [OF key1])
  have step: "capture_step enemy g ?g2"
    by (rule capture_step_trans [OF s1 add_captured_step(2) [OF key1]]) simp
  have ok2: "board_ok (board_status ?g2)" using ok1 by simp
  have "get_square_occupant ?g2 corner = Inr (cell ?g2 x y)"
    by (rule get_square_occupant_cell [OF ok2 xy ob])
  also have "cell ?g2 x y = cell ?g1 x y" by (simp add: cell_def)
  also have "\<dots> = NONE" by (simp add: cell_put [OF ok ob ob])
  finally have "get_square_occupant ?g2 corner = Inr NONE" .
  with take step show ?thesis
    by (auto simp: update_conv')
qed

lemma corner_table_valid:
  "list_all (\<lambda>(dest, neighbour, corner). valid_position neighbour \<and> valid_position corner) corner_table"
  by (simp add: corner_table_def valid_position_def)

lemma corner_chain_step:
  assumes r: "ready enemy g"
    and "list_all (\<lambda>(dest, neighbour, corner). valid_position neighbour \<and> valid_position corner) entries"
  shows "\<exists>g'. corner_chain g s color enemy entries = Inr g' \<and> capture_step enemy g g'"
  using assms(2)
proof (induction entries)
  case Nil
  from r show ?case by (simp add: ready_def capture_step_refl)
next
  case (Cons entry entries)
  obtain dest neighbour corner where entry: "entry = (dest, neighbour, corner)"
    by (cases entry)
  from Cons.prems have vn: "valid_position neighbour" and vc: "valid_position corner"
    and rest: "list_all (\<lambda>(dest, neighbour, corner). valid_position neighbour \<and> valid_position corner) entries"
    by (simp_all add: entry)
  from r obtain c where ok: "board_ok (board_status g)" and key: "map_of (captured_pieces g) enemy = Some c"
    by (auto simp: ready_def)
  from ok vn obtain nx ny where n: "get_square_occupant g neighbour = Inr (cell g nx ny)"
    by (rule square_cell)
  from ok vc obtain cx cy where cc: "get_square_occupant g corner = Inr (cell g cx cy)"
    by (rule square_cell)
  show ?case
  proof (cases "s = dest \<and> cell g nx ny = color \<and> cell g cx cy = enemy")
    case True
    with cc have "get_square_occupant g corner = Inr enemy" by simp
    from corner_take_step [OF r vc this key] True n cc show ?thesis
      by (auto simp: entry corner_test_def)
  next
    case False
    with n cc have "corner_test g s color enemy entry = Inr False"
      by (auto simp: entry corner_test_def)
    with Cons.IH [OF rest] show ?thesis by simp
  qed
qed


lemma opponent_colors:
  assumes "color = BLACK \<or> color = RED"
  shows "color \<noteq> NONE" "opponent color \<noteq> NONE" "color \<noteq> opponent color"
    "opponent color = BLACK \<or> opponent color = RED"
  using assms by (auto simp: opponent_def)

lemma piece_capture_result:
  assumes r: "ready (opponent color) g" and s: "valid_position s"
    and color: "color = BLACK \<or> color = RED"
  shows "capture_result (opponent color) g (piece_capture g s color)"
proof -
  let ?enemy = "opponent color"
  from corner_chain_step [OF r corner_table_valid, of s color]
  obtain g1 where g1: "corner_chain g s color ?enemy corner_table = Inr g1"
    and s1: "capture_step ?enemy g g1"
    by blast
  have "capture_result ?enemy g
    (case Inr g1 of Inl r \<Rightarrow> Inl r | Inr g' \<Rightarrow> directional_scans g' s color ?enemy)"
  proof (rule capture_result_then)
    show "capture_result ?enemy g (Inr g1)" using s1 by (simp add: capture_result_def)
  next
    fix g' assume "capture_step ?enemy g g'"
    from ready_step [OF r this] have "ready ?enemy g'" .
    from directional_scans_result [OF this s opponent_colors(1,2,3) [OF color]]
    show "capture_result ?enemy g' (directional_scans g' s color ?enemy)" .
  qed
  then show ?thesis
    by (simp add: piece_capture_def g1 opponent_def [symmetric])
qed

section \<open>Accepted moves\<close>

lemma py_int_column_conv:
  assumes "py_int c = Inr d" "1 \<le> d" "d \<le> 9"
  shows "c \<in> set ''123456789''"
proof -
  define n :: int where "n = of_char c"
  from assms have "49 \<le> n" "n \<le> 57"
    by (auto simp: py_int_def ord_def n_def split: if_splits)
  then have "n = 49 \<or> n = 50 \<or> n = 51 \<or> n = 52 \<or> n = 53 \<or> n = 54 \<or> n = 55 \<or> n = 56 \<or> n = 57"
    by arith
  moreover have "c = char_of n" by (simp add: n_def)
  ultimately show ?thesis
    by (elim disjE) (simp_all add: char_of_def)
qed

lemma is_valid_move_accept_format:
  assumes "is_valid_move g f t = Inr Accept"
  shows "length t = 2 \<and> length f = 2 \<and> t ! 0 \<in> set ''abcdefghi'' \<and> f ! 0 \<in> set ''abcdefghi''
    \<and> (t ! 1 = f ! 1 \<or> t ! 0 = f ! 0)
    \<and> (\<exists>d. py_int (t ! 1) = Inr d \<and> 1 \<le> d \<and> d \<le> 9)
    \<and> (\<exists>d. py_int (f ! 1) = Inr d \<and> 1 \<le> d \<and> d \<le> 9)"
  using assms
  by (simp add: is_valid_move_def Let_def split: if_splits sum.splits)

lemma is_valid_move_accept:
  assumes "is_valid_move g f t = Inr Accept"
  shows "valid_position f" "valid_position t" "t ! 1 = f ! 1 \<or> t ! 0 = f ! 0"
    "get_square_occupant g f = Inr (current_player g)" "current_player g \<noteq> NONE"
    "get_square_occupant g t = Inr NONE"
proof -
  from is_valid_move_accept_format [OF assms] py_int_column_conv
  show "valid_position f" "valid_position t" "t ! 1 = f ! 1 \<or> t ! 0 = f ! 0"
    by (auto simp: valid_position_def)
  from is_valid_move_accept_source [OF assms]
  show "get_square_occupant g f = Inr (current_player g)" "current_player g \<noteq> NONE"
    "get_square_occupant g t = Inr NONE"
    by simp_all
qed


lemma relocate:
  assumes ok: "board_ok (board_status g)" and vf: "valid_position f" and vt: "valid_position t"
    and src: "get_square_occupant g f = Inr piece" and dst: "get_square_occupant g t = Inr NONE"
    and piece: "piece \<noteq> NONE"
  shows "\<exists>g1 g2. set_square_status g t piece = Inr g1 \<and> set_square_status g1 f NONE = Inr g2
    \<and> board_ok (board_status g2) \<and> current_player g2 = current_player g
    \<and> captured_pieces g2 = captured_pieces g
    \<and> (\<forall>c. c \<noteq> NONE \<longrightarrow> pieces_on_board g2 c = pieces_on_board g c)
    \<and> get_square_occupant g2 t = Inr piece
    \<and> (\<forall>q. valid_position q \<and> q \<noteq> f \<and> q \<noteq> t \<longrightarrow> get_square_occupant g2 q = get_square_occupant g q)"
proof -
  from ok vt obtain tx ty where t: "position_to_coords t = Inr (tx, ty)" and obt: "on_board tx ty"
    and gett: "get_square_occupant g t = Inr (cell g tx ty)"
    and sett: "\<forall>piece. set_square_status g t piece = Inr (put g tx ty piece)"
    by (rule square_cell)
  let ?g1 = "put g tx ty piece"
  have ok1: "board_ok (board_status ?g1)" by (rule board_ok_put [OF ok])
  from ok1 vf obtain fx fy where f: "position_to_coords f = Inr (fx, fy)" and obf: "on_board fx fy"
    and setf: "\<forall>piece. set_square_status ?g1 f piece = Inr (put ?g1 fx fy piece)"
    by (rule square_cell)
  let ?g2 = "put ?g1 fx fy NONE"
  have ok2: "board_ok (board_status ?g2)" by (rule board_ok_put [OF ok1])
  from get_square_occupant_cell [OF ok f obf] src have cf: "cell g fx fy = piece" by simp
  from gett dst have ct: "cell g tx ty = NONE" by simp
  from cf ct piece have ne: "\<not> (fx = tx \<and> fy = ty)" by auto
  have cf1: "cell ?g1 fx fy = piece"
    using cf ne by (simp add: cell_put [OF ok obt obf])
  have count: "pieces_on_board ?g2 c = pieces_on_board g c" if "c \<noteq> NONE" for c
    using pieces_put [OF ok obt, of piece c] pieces_put [OF ok1 obf, of NONE c] that ct cf1
    by (simp split: if_splits)
  have "get_square_occupant ?g2 t = Inr (cell ?g2 tx ty)"
    by (rule get_square_occupant_cell [OF ok2 t obt])
  also have "cell ?g2 tx ty = piece"
    using ne by (auto simp: cell_put [OF ok1 obf obt] cell_put [OF ok obt obt])
  finally have at_t: "get_square_occupant ?g2 t = Inr piece" .
  have other: "get_square_occupant ?g2 q = get_square_occupant g q"
    if q: "valid_position q" "q \<noteq> f" "q \<noteq> t" for q
  proof -
    from q(1) obtain qx qy where qc: "position_to_coords q = Inr (qx, qy)" and obq: "on_board qx qy"
      by (rule position_on_board)
    from position_to_coords_inj [OF q(1) vf] q(2) qc f have nf: "\<not> (qx = fx \<and> qy = fy)" by auto
    from position_to_coords_inj [OF q(1) vt] q(3) qc t have nt: "\<not> (qx = tx \<and> qy = ty)" by auto
    have "cell ?g2 qx qy = cell g qx qy"
      using nf nt by (auto simp: cell_put [OF ok1 obf obq] cell_put [OF ok obt obq])
    with get_square_occupant_cell [OF ok2 qc obq] get_square_occupant_cell [OF ok qc obq]
    show ?thesis by simp
  qed
  from sett setf ok2 count at_t other show ?thesis
    by (auto simp: put_def)
qed

lemma make_move_accepted:
  assumes wf: "wf_game g" and st: "get_game_state g = UNFINISHED"
    and v: "is_valid_move g f t = Inr Accept"
  shows "\<exists>g1 g2. set_square_status g t (current_player g) = Inr g1
    \<and> set_square_status g1 f NONE = Inr g2
    \<and> ready (opponent (current_player g)) g2
    \<and> current_player g2 = current_player g \<and> captured_pieces g2 = captured_pieces g
    \<and> (\<forall>c. c \<noteq> NONE \<longrightarrow> pieces_on_board g2 c = pieces_on_board g c)
    \<and> get_square_occupant g2 t = Inr (current_player g)
    \<and> (\<forall>q. valid_position q \<and> q \<noteq> f \<and> q \<noteq> t \<longrightarrow> get_square_occupant g2 q = get_square_occupant g q)
    \<and> capture_result (opponent (current_player g)) g2 (piece_capture g2 t (current_player g))
    \<and> make_move g f t =
        (case piece_capture g2 t (current_player g) of
           Inl r \<Rightarrow> Inl r
         | Inr g3 \<Rightarrow> Inr (True, g3\<lparr>current_player := (if current_player g3 = RED then BLACK else RED)\<rparr>))"
proof -
  let ?cp = "current_player g"
  from wf have ok: "board_ok (board_status g)" by (rule wf_game_board_ok)
  from wf have color: "?cp = BLACK \<or> ?cp = RED" by (simp add: wf_game_def)
  note a = is_valid_move_accept [OF v]
  from relocate [OF ok a(1,2,4,6,5)] obtain g1 g2 where
    s1: "set_square_status g t ?cp = Inr g1" and s2: "set_square_status g1 f NONE = Inr g2"
    and ok2: "board_ok (board_status g2)" and cp2: "current_player g2 = ?cp"
    and cap2: "captured_pieces g2 = captured_pieces g"
    and rest: "\<forall>c. c \<noteq> NONE \<longrightarrow> pieces_on_board g2 c = pieces_on_board g c"
      "get_square_occupant g2 t = Inr ?cp"
      "\<forall>q. valid_position q \<and> q \<noteq> f \<and> q \<noteq> t \<longrightarrow> get_square_occupant g2 q = get_square_occupant g q"
    by blast
  from wf color cap2 ok2 have r2: "ready (opponent ?cp) g2"
    by (auto simp: ready_def wf_game_def opponent_def)
  from piece_capture_result [OF r2 a(2) color]
  have res: "capture_result (opponent ?cp) g2 (piece_capture g2 t ?cp)" .
  have mm: "make_move g f t =
        (case piece_capture g2 t ?cp of
           Inl r \<Rightarrow> Inl r
         | Inr g3 \<Rightarrow> Inr (True, g3\<lparr>current_player := (if current_player g3 = RED then BLACK else RED)\<rparr>))"
    by (simp add: make_move_def st v a(4) s1 s2)
  from s1 s2 r2 cp2 cap2 rest res mm show ?thesis by blast
qed

text \<open>Every game the engine can reach is well-formed: the new game is, and a call of
  \<open>make_move\<close> leaves a well-formed game well-formed, however it ends.\<close>

lemma wf_game_init: "wf_game init_game"
  by code_simp

lemma wf_game_make_move:
  assumes wf: "wf_game g"
  shows "wf_game (game_after (make_move g string_moved_from string_moved_to))"
proof (cases "get_game_state g = UNFINISHED \<and> is_valid_move g string_moved_from string_moved_to = Inr Accept")
  case False
  with wf show ?thesis
    by (auto simp: make_move_def game_after_def split: sum.splits verdict.splits)
next
  case True
  let ?cp = "current_player g" and ?f = string_moved_from and ?t = string_moved_to
  from wf have color: "?cp = BLACK \<or> ?cp = RED" by (simp add: wf_game_def)
  from True make_move_accepted [OF wf] obtain g2 where
    r2: "ready (opponent ?cp) g2" and cp2: "current_player g2 = ?cp"
    and cap2: "captured_pieces g2 = captured_pieces g"
    and res: "capture_result (opponent ?cp) g2 (piece_capture g2 ?t ?cp)"
    and mm: "make_move g ?f ?t =
        (case piece_capture g2 ?t ?cp of
           Inl r \<Rightarrow> Inl r
         | Inr g3 \<Rightarrow> Inr (True, g3\<lparr>current_player := (if current_player g3 = RED then BLACK else RED)\<rparr>))"
    by blast
  have keep: "wf_game (g3\<lparr>current_player := p\<rparr>)"
    if s: "capture_step (opponent ?cp) g2 g3" and p: "p = BLACK \<or> p = RED" for g3 p
  proof -
    from ready_step [OF r2 s] have "board_ok (board_status g3)" by (simp add: ready_def)
    moreover from s cap2 wf color
    have "map_of (captured_pieces g3) BLACK \<noteq> None \<and> map_of (captured_pieces g3) RED \<noteq> None"
      by (auto simp: capture_step_def wf_game_def opponent_def)
    ultimately show ?thesis using p
      by (simp add: wf_game_def board_ok_def)
  qed
  show ?thesis
  proof (cases "piece_capture g2 ?t ?cp")
    case (Inl r)
    obtain e g3 where r: "r = (e, g3)" by (cases r)
    from res Inl r have s: "capture_step (opponent ?cp) g2 g3" by (simp add: capture_result_def)
    then have "current_player g3 = ?cp" using cp2 by (simp add: capture_step_def)
    with keep [OF s color] have "wf_game g3"
      by (cases g3) (auto simp: wf_game_def)
    with mm Inl r show ?thesis by (simp add: game_after_def)
  next
    case (Inr g3)
    with res have s: "capture_step (opponent ?cp) g2 g3" by (simp add: capture_result_def)
    have "wf_game (g3\<lparr>current_player := (if current_player g3 = RED then BLACK else RED)\<rparr>)"
      by (rule keep [OF s]) simp
    with mm Inr show ?thesis by (simp add: game_after_def)
  qed
qed

lemma capture_step_pieces:
  assumes "capture_step enemy g g'"
  shows "pieces_on_board g' enemy \<le> pieces_on_board g enemy"
    and "c \<noteq> NONE \<Longrightarrow> c \<noteq> enemy \<Longrightarrow> pieces_on_board g' c = pieces_on_board g c"
  using assms shrinks_pieces(1) [of enemy g g'] shrinks_pieces(2) [of enemy g g' c]
  by (simp_all add: capture_step_def)

lemma pieces_on_board_player [simp]:
  "pieces_on_board (g\<lparr>current_player := p\<rparr>) c = pieces_on_board g c"
  by (simp add: pieces_on_board_def)

text \<open>
  Claim C5. A legal move is one that the validator accepts while the game is unfinished,
  on a well-formed game. \<open>make_move\<close> then relocates the piece and resolves captures; it
  returns \<open>True\<close>, or it raises \<open>UnboundLocalError\<close> in a \<open>'rowplus'\<close> scan. Either way,
  in the game it leaves the number of pieces of the mover's colour on the board is what
  it was (the moved piece included: capture resolution only empties cells that hold the
  opponent's colour), and the number of the opponent's pieces has not grown.
\<close>

theorem accepted_move_piece_counts:
  assumes "wf_game g" "get_game_state g = UNFINISHED"
    and "is_valid_move g string_moved_from string_moved_to = Inr Accept"
  shows "\<exists>g'. (make_move g string_moved_from string_moved_to = Inr (True, g')
        \<or> make_move g string_moved_from string_moved_to = Inl (UnboundLocalError, g'))
     \<and> pieces_on_board g' (current_player g) = pieces_on_board g (current_player g)
     \<and> pieces_on_board g' (opponent (current_player g)) \<le> pieces_on_board g (opponent (current_player g))"
proof -
  let ?cp = "current_player g" and ?f = string_moved_from and ?t = string_moved_to
  from assms(1) have color: "?cp = BLACK \<or> ?cp = RED" by (simp add: wf_game_def)
  from make_move_accepted [OF assms] obtain g2 where
    same: "\<forall>c. c \<noteq> NONE \<longrightarrow> pieces_on_board g2 c = pieces_on_board g c"
    and res: "capture_result (opponent ?cp) g2 (piece_capture g2 ?t ?cp)"
    and mm: "make_move g ?f ?t =
        (case piece_capture g2 ?t ?cp of
           Inl r \<Rightarrow> Inl r
         | Inr g3 \<Rightarrow> Inr (True, g3\<lparr>current_player := (if current_player g3 = RED then BLACK else RED)\<rparr>))"
    by blast
  have counts: "pieces_on_board g3 ?cp = pieces_on_board g ?cp
      \<and> pieces_on_board g3 (opponent ?cp) \<le> pieces_on_board g (opponent ?cp)"
    if "capture_step (opponent ?cp) g2 g3" for g3
    using capture_step_pieces(1) [OF that] capture_step_pieces(2) [OF that, of ?cp] same
      opponent_colors [OF color]
    by simp
  show ?thesis
  proof (cases "piece_capture g2 ?t ?cp")
    case (Inl r)
    obtain e g3 where r: "r = (e, g3)" by (cases r)
    from res Inl r have "e = UnboundLocalError" and "capture_step (opponent ?cp) g2 g3"
      by (simp_all add: capture_result_def)
    with counts [of g3] mm Inl r show ?thesis by auto
  next
    case (Inr g3)
    with res have "capture_step (opponent ?cp) g2 g3"
      by (simp add: capture_result_def)
    from counts [OF this] mm Inr show ?thesis by auto
  qed
qed

theorem accepted_move_piece_counts_witness:
  "wf_game late_game \<and> get_game_state late_game = UNFINISHED
   \<and> is_valid_move late_game ''a5'' ''e5'' = Inr Accept
   \<and> current_player late_game = BLACK
   \<and> make_move late_game ''a5'' ''e5'' = Inr (True, won_game)
   \<and> pieces_on_board late_game BLACK = 2 \<and> pieces_on_board won_game BLACK = 2
   \<and> pieces_on_board late_game RED = 2 \<and> pieces_on_board won_game RED = 1"
proof -
  have c: "wf_game late_game" "get_game_state late_game = UNFINISHED"
    "is_valid_move late_game ''a5'' ''e5'' = Inr Accept"
    "current_player late_game = BLACK"
    "make_move late_game ''a5'' ''e5'' = Inr (True, won_game)"
    "pieces_on_board late_game BLACK = 2" "pieces_on_board late_game RED = 2"
    "pieces_on_board won_game RED = 1"
    by code_simp+
  from accepted_move_piece_counts [OF c(1,2,3)] c(4,5,6)
  have "pieces_on_board won_game BLACK = 2" by auto
  with c show ?thesis by simp
qed

section \<open>Corner captures\<close>








lemma get_num_captured_pieces_map_of:
  "get_num_captured_pieces g k = Inr c \<longleftrightarrow> map_of (captured_pieces g) k = Some c"
  by (simp add: get_num_captured_pieces_def split: option.splits)


lemma capture_step_count:
  assumes "capture_step enemy g g'" "map_of (captured_pieces g) enemy = Some c"
  shows "\<exists>c'. map_of (captured_pieces g') enemy = Some c' \<and> c \<le> c'"
  using assms by (auto simp: capture_step_def)

lemma get_square_occupant_player [simp]:
  "get_square_occupant (g\<lparr>current_player := p\<rparr>) q = get_square_occupant g q"
  by (simp add: get_square_occupant_def cong: sum.case_cong prod.case_cong)

lemma get_num_captured_pieces_player [simp]:
  "get_num_captured_pieces (g\<lparr>current_player := p\<rparr>) k = get_num_captured_pieces g k"
  by (simp add: get_num_captured_pieces_def)



section \<open>Flanks along a line, and the captured counts\<close>

text \<open>
  What \<open>try_capture\<close> does when the scan meets a run of \<open>n\<close> enemy pieces closed by a
  piece of the mover: in the directions \<open>'rowminus'\<close>, \<open>'colminus'\<close> and \<open>'colplus'\<close> it
  empties exactly the cells of the run and adds \<open>n\<close> to the enemy's captured count; in
  the direction \<open>'rowplus'\<close> it raises \<open>UnboundLocalError\<close> and changes nothing, also
  for \<open>n = 0\<close>, when the cell next to the destination holds a piece of the mover.
\<close>

lemma on_board_loop_cond: "on_board x y \<Longrightarrow> loop_cond d x y"
  by (cases d) (auto simp: on_board_def loop_cond_def)

lemma scan_flank:
  assumes ok: "board_ok (board_status g)"
    and colors: "color \<noteq> NONE" "enemy \<noteq> NONE" "color \<noteq> enemy"
    and run: "list_all (\<lambda>(a, b). on_board a b \<and> cell g a b = enemy) (run_cells d xy n)"
    and close: "on_board (fst ((advance d ^^ n) xy)) (snd ((advance d ^^ n) xy))"
      "cell g (fst ((advance d ^^ n) xy)) (snd ((advance d ^^ n) xy)) = color"
  shows "scan g color enemy d xy c = Inr (Broke (c + int n))"
  using run close
proof (induction n arbitrary: xy c)
  case 0
  then have ob: "on_board (fst xy) (snd xy)" and col: "cell g (fst xy) (snd xy) = color"
    by simp_all
  from ob obtain p where p: "coords_to_position (fst xy) (snd xy) = Inr p"
    and pc: "position_to_coords p = Inr (fst xy, snd xy)"
    by (rule coords_on_board)
  from get_square_occupant_cell [OF ok pc ob] col p colors on_board_loop_cond [OF ob]
  show ?case by (simp add: scan.simps)
next
  case (Suc n)
  obtain x y where xy: "xy = (x, y)" by (cases xy)
  from Suc.prems(1) have ob: "on_board x y" and en: "cell g x y = enemy"
    and rest: "list_all (\<lambda>(a, b). on_board a b \<and> cell g a b = enemy) (run_cells d (advance d xy) n)"
    by (simp_all add: xy)
  from Suc.prems(2,3) have close: "on_board (fst ((advance d ^^ n) (advance d xy))) (snd ((advance d ^^ n) (advance d xy)))"
    "cell g (fst ((advance d ^^ n) (advance d xy))) (snd ((advance d ^^ n) (advance d xy))) = color"
    by (simp_all add: funpow_swap1)
  from Suc.IH [OF rest close] have "scan g color enemy d (advance d xy) (c + 1) = Inr (Broke (c + 1 + int n))" .
  moreover from ob obtain p where p: "coords_to_position x y = Inr p"
    and pc: "position_to_coords p = Inr (x, y)"
    by (rule coords_on_board)
  ultimately show ?case
    using get_square_occupant_cell [OF ok pc ob] en colors on_board_loop_cond [OF ob, of d]
    by (simp add: scan.simps [of g color enemy d "(x, y)" c] xy add.assoc)
qed

lemma clear_cells_exact:
  assumes "board_ok (board_status g)" "list_all (\<lambda>(a, b). on_board a b) cells"
  shows "\<exists>g'. clear_cells g cells = Inr g' \<and> board_ok (board_status g')
     \<and> current_player g' = current_player g \<and> captured_pieces g' = captured_pieces g
     \<and> (\<forall>a b. on_board a b \<longrightarrow> cell g' a b = (if (a, b) \<in> set cells then NONE else cell g a b))"
  using assms
proof (induction cells arbitrary: g)
  case Nil
  then show ?case by simp
next
  case (Cons xy cells)
  obtain x y where xy: "xy = (x, y)" by (cases xy)
  from Cons.prems(2) have ob: "on_board x y" and rest: "list_all (\<lambda>(a, b). on_board a b) cells"
    by (simp_all add: xy)
  from ob obtain p where p: "coords_to_position x y = Inr p"
    and pc: "position_to_coords p = Inr (x, y)"
    by (rule coords_on_board)
  let ?g1 = "put g x y NONE"
  from set_square_status_put [OF Cons.prems(1) pc ob]
  have set: "set_square_status g p NONE = Inr ?g1" .
  have ok1: "board_ok (board_status ?g1)" by (rule board_ok_put [OF Cons.prems(1)])
  from Cons.IH [OF ok1 rest] obtain g' where
    g': "clear_cells ?g1 cells = Inr g'" "board_ok (board_status g')"
      "current_player g' = current_player ?g1" "captured_pieces g' = captured_pieces ?g1"
      "\<forall>a b. on_board a b \<longrightarrow> cell g' a b = (if (a, b) \<in> set cells then NONE else cell ?g1 a b)"
    by blast
  have "cell g' a b = (if (a, b) \<in> set (xy # cells) then NONE else cell g a b)" if "on_board a b" for a b
    using g'(5) that cell_put [OF Cons.prems(1) ob that] by (auto simp: xy)
  with g'(1-4) p set show ?case
    by (simp add: xy put_def)
qed

lemma flank_is_captured:
  assumes r: "ready enemy g"
    and colors: "color \<noteq> NONE" "enemy \<noteq> NONE" "color \<noteq> enemy"
    and d: "d \<noteq> rowplus"
    and run: "list_all (\<lambda>(a, b). on_board a b \<and> cell g a b = enemy) (run_cells d (x, y) n)"
    and close: "on_board (fst ((advance d ^^ n) (x, y))) (snd ((advance d ^^ n) (x, y)))"
      "cell g (fst ((advance d ^^ n) (x, y))) (snd ((advance d ^^ n) (x, y))) = color"
    and key: "map_of (captured_pieces g) enemy = Some c"
  shows "\<exists>g'. try_capture g color enemy x y d = Inr g'
     \<and> (\<forall>a b. on_board a b \<longrightarrow>
           cell g' a b = (if (a, b) \<in> set (run_cells d (x, y) n) then NONE else cell g a b))
     \<and> map_of (captured_pieces g') enemy = Some (c + int n)
     \<and> current_player g' = current_player g"
proof -
  from r have ok: "board_ok (board_status g)" by (simp add: ready_def)
  from scan_flank [OF ok colors run close, of 0]
  have sc: "scan g color enemy d (x, y) 0 = Inr (Broke (int n))" by simp
  from run have "list_all (\<lambda>(a, b). on_board a b) (run_cells d (x, y) n)"
    by (auto simp: list_all_iff)
  from clear_cells_exact [OF ok this] obtain g1 where
    g1: "clear_cells g (run_cells d (x, y) n) = Inr g1"
      "current_player g1 = current_player g" "captured_pieces g1 = captured_pieces g"
      "\<forall>a b. on_board a b \<longrightarrow>
         cell g1 a b = (if (a, b) \<in> set (run_cells d (x, y) n) then NONE else cell g a b)"
    by blast
  from key g1(3) have key1: "map_of (captured_pieces g1) enemy = Some c" by simp
  let ?g' = "g1\<lparr>captured_pieces := AList.update enemy (c + int n) (captured_pieces g1)\<rparr>"
  have add: "add_captured g1 enemy (int n) = Inr ?g'"
    by (rule add_captured_step(1) [OF key1]) simp
  have "try_capture g color enemy x y d = Inr ?g'"
    using d sc g1(1) add captured_cells [where n = "int n" and x = x and y = y]
    by (cases d) (simp_all add: try_capture_def)
  moreover have "cell ?g' a b = cell g1 a b" for a b by (simp add: cell_def)
  ultimately show ?thesis
    using g1(2,4) by (simp add: update_conv')
qed

lemma flank_is_captured_example:
  "ready RED late_game
   \<and> run_cells rowminus (4, 3) 1 = [(4, 3)]
   \<and> cell late_game 4 3 = RED \<and> cell late_game 4 2 = BLACK
   \<and> try_capture late_game BLACK RED 4 3 rowminus
       = Inr (late_game\<lparr>board_status := (board_status late_game)[4 := (replicate 9 NONE)[2 := BLACK]],
                         captured_pieces := [(BLACK, 7), (RED, 8)]\<rparr>)"
  by code_simp


lemma rowplus_flank_raises:
  assumes "board_ok (board_status g)"
    and "color \<noteq> NONE" "enemy \<noteq> NONE" "color \<noteq> enemy"
    and "list_all (\<lambda>(a, b). on_board a b \<and> cell g a b = enemy) (run_cells rowplus (x, y) n)"
    and "on_board (fst ((advance rowplus ^^ n) (x, y))) (snd ((advance rowplus ^^ n) (x, y)))"
      "cell g (fst ((advance rowplus ^^ n) (x, y))) (snd ((advance rowplus ^^ n) (x, y))) = color"
  shows "try_capture g color enemy x y rowplus = Inl (UnboundLocalError, g)"
  using scan_flank [OF assms, of 0] by (simp add: try_capture_def)

text \<open>
  The captured counts never go down: whatever a call of \<open>make_move\<close> does to a
  well-formed game, each count in the game it leaves is at least what it was.
\<close>

lemma captured_counts_never_decrease:
  assumes wf: "wf_game g" and k: "get_num_captured_pieces g k = Inr c"
  shows "\<exists>c'. get_num_captured_pieces (game_after (make_move g string_moved_from string_moved_to)) k = Inr c'
    \<and> c \<le> c'"
proof (cases "get_game_state g = UNFINISHED \<and> is_valid_move g string_moved_from string_moved_to = Inr Accept")
  case False
  with k show ?thesis
    by (auto simp: make_move_def game_after_def split: sum.splits verdict.splits)
next
  case True
  let ?cp = "current_player g" and ?f = string_moved_from and ?t = string_moved_to
  from True make_move_accepted [OF wf] obtain g2 where
    cap2: "captured_pieces g2 = captured_pieces g"
    and res: "capture_result (opponent ?cp) g2 (piece_capture g2 ?t ?cp)"
    and mm: "make_move g ?f ?t =
        (case piece_capture g2 ?t ?cp of
           Inl r \<Rightarrow> Inl r
         | Inr g3 \<Rightarrow> Inr (True, g3\<lparr>current_player := (if current_player g3 = RED then BLACK else RED)\<rparr>))"
    by blast
  have grow: "\<exists>c'. get_num_captured_pieces g3 k = Inr c' \<and> c \<le> c'"
    if s: "capture_step (opponent ?cp) g2 g3" for g3
  proof (cases "k = opponent ?cp")
    case True
    with k cap2 capture_step_count [OF s, of c] show ?thesis
      by (simp add: get_num_captured_pieces_map_of)
  next
    case False
    with s k cap2 show ?thesis
      by (auto simp: capture_step_def get_num_captured_pieces_map_of)
  qed
  show ?thesis
  proof (cases "piece_capture g2 ?t ?cp")
    case (Inl r)
    obtain e g3 where r: "r = (e, g3)" by (cases r)
    from res Inl r have "capture_step (opponent ?cp) g2 g3" by (simp add: capture_result_def)
    from grow [OF this] mm Inl r show ?thesis by (simp add: game_after_def)
  next
    case (Inr g3)
    with res have "capture_step (opponent ?cp) g2 g3" by (simp add: capture_result_def)
    from grow [OF this] mm Inr show ?thesis by (simp add: game_after_def)
  qed
qed

section \<open>The order of the validator's checks\<close>

lemma py_int_column:
  assumes "c \<in> set ''123456789''"
  shows "\<exists>d. py_int c = Inr d \<and> 1 \<le> d \<and> d \<le> 9"
  using assms by (auto simp: py_int_def ord_def)

lemma is_valid_move_occupancy:
  assumes f: "valid_position f" and t: "valid_position t"
    and line: "t ! 1 = f ! 1 \<or> t ! 0 = f ! 0"
    and p: "get_square_occupant g f = Inr piece"
    and d: "get_square_occupant g t = Inr destination"
  shows "is_valid_move g f t =
    (if destination \<noteq> NONE then Inr (Reject PieceInDestination)
     else if piece = NONE then Inr (Reject NoPieceInSource)
     else if piece \<noteq> current_player g then Inr (Reject NotThePlayersPiece)
     else is_valid_move g f t)"
proof -
  from f obtain df where df: "py_int (f ! 1) = Inr df" "1 \<le> df" "df \<le> 9"
    using py_int_column [of "f ! 1"] by (auto simp: valid_position_def)
  from t obtain dt where dt: "py_int (t ! 1) = Inr dt" "1 \<le> dt" "dt \<le> 9"
    using py_int_column [of "t ! 1"] by (auto simp: valid_position_def)
  from f t have len: "length f = 2" "length t = 2"
    and ltr: "f ! 0 \<in> set ''abcdefghi''" "t ! 0 \<in> set ''abcdefghi''"
    by (simp_all add: valid_position_def)
  show ?thesis
  proof (cases "destination \<noteq> NONE \<or> piece = NONE \<or> piece \<noteq> current_player g")
    case True
    with len ltr line df dt p d show ?thesis
      by (auto simp: is_valid_move_def Let_def get_active_player_def)
  next
    case False
    then show ?thesis by auto
  qed
qed


lemma path_clear_verdict:
  assumes "board_ok (board_status g)" "list_all (\<lambda>(x, y). on_board x y) cells"
  shows "path_clear g cells = Inr Accept \<or> (\<exists>p. path_clear g cells = Inr (Reject (OccupiedAlready p)))"
  using assms(2)
proof (induction cells)
  case Nil
  show ?case by simp
next
  case (Cons xy cells)
  obtain x y where xy: "xy = (x, y)" by (cases xy)
  from Cons.prems have ob: "on_board x y" and rest: "list_all (\<lambda>(x, y). on_board x y) cells"
    by (simp_all add: xy)
  from ob obtain p where p: "coords_to_position x y = Inr p"
    and pc: "position_to_coords p = Inr (x, y)"
    by (rule coords_on_board)
  from get_square_occupant_cell [OF assms(1) pc ob] p Cons.IH [OF rest] show ?case
    by (auto simp: xy)
qed

lemma py_range_strictly_between:
  assumes "i \<in> set (py_range (if a > b then a - 1 else a + 1) b (if a > b then - 1 else 1))"
  shows "(a < i \<and> i < b) \<or> (b < i \<and> i < a)"
  using assms by (auto simp: py_range_def split: if_splits)

lemma is_valid_move_path:
  assumes ok: "board_ok (board_status g)"
    and f: "valid_position f" and t: "valid_position t"
    and line: "t ! 1 = f ! 1 \<or> t ! 0 = f ! 0"
    and p: "get_square_occupant g f = Inr (current_player g)" "current_player g \<noteq> NONE"
    and d: "get_square_occupant g t = Inr NONE"
  shows "is_valid_move g f t = Inr Accept \<or> (\<exists>p. is_valid_move g f t = Inr (Reject (OccupiedAlready p)))"
proof -
  from f obtain df where df: "py_int (f ! 1) = Inr df" "1 \<le> df" "df \<le> 9"
    using py_int_column [of "f ! 1"] by (auto simp: valid_position_def)
  from t obtain dt where dt: "py_int (t ! 1) = Inr dt" "1 \<le> dt" "dt \<le> 9"
    using py_int_column [of "t ! 1"] by (auto simp: valid_position_def)
  from f t have len: "length f = 2" "length t = 2"
    and ltr: "f ! 0 \<in> set ''abcdefghi''" "t ! 0 \<in> set ''abcdefghi''"
    by (simp_all add: valid_position_def)
  from f obtain xf yf where cf: "position_to_coords f = Inr (xf, yf)" and obf: "on_board xf yf"
    by (rule position_on_board)
  from t obtain xt yt where ct: "position_to_coords t = Inr (xt, yt)" and obt: "on_board xt yt"
    by (rule position_on_board)
  let ?ys = "py_range (if yf > yt then yf - 1 else yf + 1) yt (if yf > yt then - 1 else 1)"
  let ?xs = "py_range (if xf > xt then xf - 1 else xf + 1) xt (if xf > xt then - 1 else 1)"
  have eq: "is_valid_move g f t =
    (if xt = xf then path_clear g (map (\<lambda>i. (xt, i)) ?ys)
     else if yt = yf then path_clear g (map (\<lambda>i. (i, yt)) ?xs)
     else Inr Accept)"
  proof (cases "t ! 0 = f ! 0")
    case True
    with len ltr df dt p d cf ct show ?thesis
      unfolding is_valid_move_def Let_def get_active_player_def by simp
  next
    case False
    with line have "t ! 1 = f ! 1" by simp
    with len ltr df dt p d cf ct show ?thesis
      unfolding is_valid_move_def Let_def get_active_player_def by simp
  qed
  have "on_board xt i" if "i \<in> set ?ys" for i
    using py_range_strictly_between [OF that] obf obt by (auto simp: on_board_def)
  then have "list_all (\<lambda>(x, y). on_board x y) (map (\<lambda>i. (xt, i)) ?ys)"
    by (simp add: list_all_iff)
  note row = path_clear_verdict [OF ok this]
  have "on_board i yt" if "i \<in> set ?xs" for i
    using py_range_strictly_between [OF that] obf obt by (auto simp: on_board_def)
  then have "list_all (\<lambda>(x, y). on_board x y) (map (\<lambda>i. (i, yt)) ?xs)"
    by (simp add: list_all_iff)
  note col = path_clear_verdict [OF ok this]
  from row col show ?thesis
    unfolding eq by auto
qed

lemma is_valid_move_column_to:
  assumes "length t = 2" "length f = 2" "t ! 0 \<in> set ''abcdefghi''" "f ! 0 \<in> set ''abcdefghi''"
    and "t ! 1 = f ! 1 \<or> t ! 0 = f ! 0" and "t ! 1 = CHR ''0''"
  shows "is_valid_move g f t = Inr (Reject InvalidColumnTo)"
proof -
  from assms(6) have z: "py_int (t ! 1) = Inr 0" by (simp add: py_int_def ord_def)
  show ?thesis
  proof (cases "t ! 0 = f ! 0")
    case True
    with z assms(1-4) show ?thesis
      unfolding is_valid_move_def Let_def by simp
  next
    case False
    with assms(5) have "t ! 1 = f ! 1" by simp
    with z assms(1-4) show ?thesis
      unfolding is_valid_move_def Let_def by simp
  qed
qed

lemma is_valid_move_column_from:
  assumes "length t = 2" "length f = 2" "t ! 0 \<in> set ''abcdefghi''" "f ! 0 \<in> set ''abcdefghi''"
    and "t ! 1 = f ! 1 \<or> t ! 0 = f ! 0" and "t ! 1 \<in> set ''123456789''" and "f ! 1 = CHR ''0''"
  shows "is_valid_move g f t = Inr (Reject InvalidColumnFrom)"
proof -
  from py_int_column [OF assms(6)] obtain dt where dt: "py_int (t ! 1) = Inr dt" "1 \<le> dt" "dt \<le> 9"
    by blast
  from assms(7) have z: "py_int (f ! 1) = Inr 0" by (simp add: py_int_def ord_def)
  from assms(6,7) have "t ! 1 \<noteq> f ! 1" by auto
  with assms(5) have "t ! 0 = f ! 0" by simp
  with z dt assms(1-4) show ?thesis
    unfolding is_valid_move_def Let_def by simp
qed

text \<open>
  Claim C9, as the code has it. The claim puts the check of the source's owner before
  the check of the destination. \<open>is_valid_move\<close> checks, in this order: the length
  of the destination string, then of the source string; the row letter of the
  destination, then of the source; the direction (no diagonal move); the column of the
  destination, then of the source (a column \<open>0\<close> is reported; a character that is no
  digit raises, see C4); that the destination is empty; that the source is not empty;
  that the source holds the active player's piece; that the path is clear. The first
  check that fails gives the message. So a move between well-formed positions on one
  line whose destination is occupied is reported as "piece in destination", whatever
  the source holds; the two messages about the source are given only when the
  destination is empty; and when all these checks pass on a well-formed board, the move
  is accepted or reported as blocked on its path.
\<close>

theorem validator_check_order:
  "(length t \<noteq> 2 \<longrightarrow> is_valid_move g f t = Inr (Reject NotValidMovedTo))
   \<and> (length t = 2 \<and> length f \<noteq> 2 \<longrightarrow> is_valid_move g f t = Inr (Reject NotValidMovedFrom))
   \<and> (length t = 2 \<and> length f = 2 \<and> t ! 0 \<notin> set ''abcdefghi'' \<longrightarrow>
        is_valid_move g f t = Inr (Reject InvalidMoveToRow))
   \<and> (length t = 2 \<and> length f = 2 \<and> t ! 0 \<in> set ''abcdefghi'' \<and> f ! 0 \<notin> set ''abcdefghi'' \<longrightarrow>
        is_valid_move g f t = Inr (Reject InvalidMoveFromRow))
   \<and> (length t = 2 \<and> length f = 2 \<and> t ! 0 \<in> set ''abcdefghi'' \<and> f ! 0 \<in> set ''abcdefghi''
        \<and> t ! 1 \<noteq> f ! 1 \<and> t ! 0 \<noteq> f ! 0 \<longrightarrow>
        is_valid_move g f t = Inr (Reject NoDiagonalMovement))
   \<and> (length t = 2 \<and> length f = 2 \<and> t ! 0 \<in> set ''abcdefghi'' \<and> f ! 0 \<in> set ''abcdefghi''
        \<and> (t ! 1 = f ! 1 \<or> t ! 0 = f ! 0) \<and> t ! 1 = CHR ''0'' \<longrightarrow>
        is_valid_move g f t = Inr (Reject InvalidColumnTo))
   \<and> (length t = 2 \<and> length f = 2 \<and> t ! 0 \<in> set ''abcdefghi'' \<and> f ! 0 \<in> set ''abcdefghi''
        \<and> (t ! 1 = f ! 1 \<or> t ! 0 = f ! 0) \<and> t ! 1 \<in> set ''123456789'' \<and> f ! 1 = CHR ''0'' \<longrightarrow>
        is_valid_move g f t = Inr (Reject InvalidColumnFrom))
   \<and> (valid_position f \<and> valid_position t \<and> (t ! 1 = f ! 1 \<or> t ! 0 = f ! 0)
        \<and> get_square_occupant g f = Inr piece \<and> get_square_occupant g t = Inr destination \<longrightarrow>
        (destination \<noteq> NONE \<longrightarrow> is_valid_move g f t = Inr (Reject PieceInDestination))
        \<and> (destination = NONE \<and> piece = NONE \<longrightarrow> is_valid_move g f t = Inr (Reject NoPieceInSource))
        \<and> (destination = NONE \<and> piece \<noteq> NONE \<and> piece \<noteq> current_player g \<longrightarrow>
             is_valid_move g f t = Inr (Reject NotThePlayersPiece))
        \<and> (destination = NONE \<and> piece \<noteq> NONE \<and> piece = current_player g \<and> board_ok (board_status g) \<longrightarrow>
             is_valid_move g f t = Inr Accept
             \<or> (\<exists>p. is_valid_move g f t = Inr (Reject (OccupiedAlready p)))))"
proof (intro conjI impI)
  assume a: "valid_position f \<and> valid_position t \<and> (t ! 1 = f ! 1 \<or> t ! 0 = f ! 0)
        \<and> get_square_occupant g f = Inr piece \<and> get_square_occupant g t = Inr destination"
  then have eq: "is_valid_move g f t =
    (if destination \<noteq> NONE then Inr (Reject PieceInDestination)
     else if piece = NONE then Inr (Reject NoPieceInSource)
     else if piece \<noteq> current_player g then Inr (Reject NotThePlayersPiece)
     else is_valid_move g f t)"
    by (intro is_valid_move_occupancy) simp_all
  {
    assume "destination \<noteq> NONE"
    with eq show "is_valid_move g f t = Inr (Reject PieceInDestination)" by simp
  next
    assume "destination = NONE \<and> piece = NONE"
    with eq show "is_valid_move g f t = Inr (Reject NoPieceInSource)" by simp
  next
    assume "destination = NONE \<and> piece \<noteq> NONE \<and> piece \<noteq> current_player g"
    with eq show "is_valid_move g f t = Inr (Reject NotThePlayersPiece)" by simp
  next
    assume "destination = NONE \<and> piece \<noteq> NONE \<and> piece = current_player g \<and> board_ok (board_status g)"
    with a show "is_valid_move g f t = Inr Accept
        \<or> (\<exists>p. is_valid_move g f t = Inr (Reject (OccupiedAlready p)))"
      by (intro is_valid_move_path) auto
  }
next
  assume "length t = 2 \<and> length f = 2 \<and> t ! 0 \<in> set ''abcdefghi'' \<and> f ! 0 \<in> set ''abcdefghi''
        \<and> (t ! 1 = f ! 1 \<or> t ! 0 = f ! 0) \<and> t ! 1 \<in> set ''123456789'' \<and> f ! 1 = CHR ''0''"
  then show "is_valid_move g f t = Inr (Reject InvalidColumnFrom)"
    by (intro is_valid_move_column_from) auto
next
  assume "length t = 2 \<and> length f = 2 \<and> t ! 0 \<in> set ''abcdefghi'' \<and> f ! 0 \<in> set ''abcdefghi''
        \<and> (t ! 1 = f ! 1 \<or> t ! 0 = f ! 0) \<and> t ! 1 = CHR ''0''"
  then show "is_valid_move g f t = Inr (Reject InvalidColumnTo)"
    by (intro is_valid_move_column_to) auto
qed (simp_all add: is_valid_move_def)

theorem validator_check_order_witness:
  "is_valid_move init_game ''a1'' ''b22'' = Inr (Reject NotValidMovedTo)
   \<and> is_valid_move init_game ''a'' ''b2'' = Inr (Reject NotValidMovedFrom)
   \<and> is_valid_move init_game ''a1'' ''z1'' = Inr (Reject InvalidMoveToRow)
   \<and> is_valid_move init_game ''z1'' ''a1'' = Inr (Reject InvalidMoveFromRow)
   \<and> is_valid_move init_game ''ax'' ''by'' = Inr (Reject NoDiagonalMovement)
   \<and> is_valid_move init_game ''a1'' ''a0'' = Inr (Reject InvalidColumnTo)
   \<and> is_valid_move init_game ''a0'' ''a1'' = Inr (Reject InvalidColumnFrom)
   \<and> get_square_occupant init_game ''i1'' = Inr RED \<and> current_player init_game = BLACK
   \<and> get_square_occupant init_game ''i2'' = Inr RED
   \<and> is_valid_move init_game ''i1'' ''i2'' = Inr (Reject PieceInDestination)
   \<and> is_valid_move init_game ''b1'' ''b2'' = Inr (Reject NoPieceInSource)
   \<and> is_valid_move init_game ''i1'' ''h1'' = Inr (Reject NotThePlayersPiece)
   \<and> board_ok (board_status flank_opening)
   \<and> get_square_occupant flank_opening ''e3'' = Inr (current_player flank_opening)
   \<and> get_square_occupant flank_opening ''e1'' = Inr NONE
   \<and> is_valid_move flank_opening ''e3'' ''e1'' = Inr (Reject (OccupiedAlready ''e2''))
   \<and> is_valid_move flank_opening ''e3'' ''e9'' = Inr Accept"
proof -
  have c: "get_square_occupant init_game ''i1'' = Inr RED"
    "get_square_occupant init_game ''i2'' = Inr RED"
    "get_square_occupant init_game ''b1'' = Inr NONE"
    "get_square_occupant init_game ''b2'' = Inr NONE"
    "get_square_occupant init_game ''h1'' = Inr NONE"
    "current_player init_game = BLACK"
    and d: "board_ok (board_status flank_opening)"
    "get_square_occupant flank_opening ''e3'' = Inr (current_player flank_opening)"
    "get_square_occupant flank_opening ''e1'' = Inr NONE"
    "current_player flank_opening = BLACK"
    "is_valid_move flank_opening ''e3'' ''e1'' = Inr (Reject (OccupiedAlready ''e2''))"
    "is_valid_move flank_opening ''e3'' ''e9'' = Inr Accept"
    by code_simp+
  from c d validator_check_order [of "''b22''" init_game "''a1''"]
    validator_check_order [of "''b2''" init_game "''a''"]
    validator_check_order [of "''z1''" init_game "''a1''"]
    validator_check_order [of "''a1''" init_game "''z1''"]
    validator_check_order [of "''by''" init_game "''ax''"]
    validator_check_order [of "''a0''" init_game "''a1''"]
    validator_check_order [of "''a1''" init_game "''a0''"]
    validator_check_order [of "''i2''" init_game "''i1''" RED RED]
    validator_check_order [of "''b2''" init_game "''b1''" NONE NONE]
    validator_check_order [of "''h1''" init_game "''i1''" RED NONE]
    validator_check_order [of "''e1''" flank_opening "''e3''" BLACK NONE]
  show ?thesis
    by (simp add: valid_position_def)
qed

text \<open>
  The claim as stated fails on a new game for the move \<open>i1-i2\<close>: the source \<open>i1\<close> holds
  a red piece while Black is to move, the destination \<open>i2\<close> is occupied, and the reason
  reported is the occupied destination, not the ownership of the source.
\<close>

theorem occupied_destination_is_reported_first:
  "get_square_occupant init_game ''i1'' = Inr RED
   \<and> current_player init_game = BLACK
   \<and> get_square_occupant init_game ''i2'' = Inr RED
   \<and> is_valid_move init_game ''i1'' ''i2'' = Inr (Reject PieceInDestination)
   \<and> is_valid_move init_game ''i1'' ''i2'' \<noteq> Inr (Reject NotThePlayersPiece)
   \<and> is_valid_move init_game ''i1'' ''i2'' \<noteq> Inr (Reject NoPieceInSource)"
  by code_simp

end
